theory Spec2Isabelle
  imports Main
begin

text \<open>
  The flattening encoder of Brevit.js: \<open>_flattenObject\<close> of \<open>BrevitClient\<close> and the
  methods it calls, as functions on JavaScript values, and what they compute.
\<close>

section \<open>JavaScript strings\<close>

text \<open>
  A JavaScript string is a sequence of UTF-16 code units; \<open>length\<close>, \<open>indexOf\<close>,
  \<open>substring\<close> and \<open>startsWith\<close> count code units. The model uses \<^typ>\<open>string\<close>, one
  \<^typ>\<open>char\<close> per code unit, so it covers the code units \<open>0x00 .. 0xFF\<close>.
\<close>

definition comma :: char where "comma = CHR 0x2C"
definition newline :: char where "newline = CHR 0x0A"
definition dquote :: char where "dquote = CHR 0x22"
definition backslash :: char where "backslash = CHR 0x5C"

text \<open>\<open>Array.prototype.join\<close> on an array of strings.\<close>

fun join :: "string \<Rightarrow> string list \<Rightarrow> string" where
  "join sep [] = []"
| "join sep [x] = x"
| "join sep (x # y # ys) = x @ sep @ join sep (y # ys)"

text \<open>
  The decimal form of an array length or index, as in \<open>`${arr.length}`\<close> and
  \<open>`[${index}]`\<close>; both stay below \<open>2^32\<close>, where the form of a number is its decimal
  numeral.
\<close>

definition digit_char :: "nat \<Rightarrow> char" where
  "digit_char d = char_of (48 + d)"

fun show_nat :: "nat \<Rightarrow> string" where
  "show_nat n = (if n < 10 then [digit_char n] else show_nat (n div 10) @ [digit_char (n mod 10)])"

declare show_nat.simps [simp del]

section \<open>Values\<close>

text \<open>
  The values \<open>_flatten\<close> distinguishes with \<open>typeof\<close>, \<open>=== null\<close> and \<open>Array.isArray\<close>.
  \<open>JObject\<close> carries the list \<open>Object.entries\<close> returns (own enumerable string keys in
  the engine's order, no key twice). The encoder applies nothing but \<open>typeof\<close> and
  \<open>String\<close> to a number, so \<open>JNum\<close> carries the number as the text \<open>String\<close> gives
  for it: \<open>30\<close>, \<open>-7.5\<close>, \<open>1e+21\<close>, \<open>NaN\<close>, \<open>Infinity\<close>.
\<close>

datatype jsvalue =
    JUndefined
  | JNull
  | JBool bool
  | JNum string
  | JString string
  | JObject "(string \<times> jsvalue) list"
  | JArray "jsvalue list"

datatype error = TypeError

text \<open>The first error of a list of results, or all the values.\<close>

fun collect :: "(error + 'a) list \<Rightarrow> error + 'a list" where
  "collect [] = Inr []"
| "collect (Inl e # rs) = Inl e"
| "collect (Inr x # rs) = (case collect rs of Inl e \<Rightarrow> Inl e | Inr xs \<Rightarrow> Inr (x # xs))"

text \<open>
  \<open>String(value)\<close>. On an object it runs OrdinaryToPrimitive with hint string: the
  property \<open>toString\<close> is looked up and called when callable, then \<open>valueOf\<close>. A plain
  object inherits \<open>Object.prototype.toString\<close> and gives \<open>[object Object]\<close>; an object
  with an own entry \<open>toString\<close> (a data value, never callable) falls through to
  \<open>Object.prototype.valueOf\<close>, which returns the object itself, and the conversion
  throws a TypeError. On an array it is \<open>join(',')\<close>, where \<open>null\<close> and \<open>undefined\<close>
  elements give the empty string.
\<close>

fun String_js :: "jsvalue \<Rightarrow> error + string" where
  "String_js JUndefined = Inr ''undefined''"
| "String_js JNull = Inr ''null''"
| "String_js (JBool b) = Inr (if b then ''true'' else ''false'')"
| "String_js (JNum n) = Inr n"
| "String_js (JString s) = Inr s"
| "String_js (JObject kvs) =
     (if ''toString'' \<in> set (map fst kvs) then Inl TypeError else Inr ''[object Object]'')"
| "String_js (JArray xs) =
     (case collect (map (\<lambda>v. case v of JUndefined \<Rightarrow> Inr [] | JNull \<Rightarrow> Inr [] | _ \<Rightarrow> String_js v) xs) of
        Inl e \<Rightarrow> Inl e
      | Inr strs \<Rightarrow> Inr (join [comma] strs))"

text \<open>The string form of a value: what \<open>String\<close> returns for it (empty where it throws).\<close>

definition string_form :: "jsvalue \<Rightarrow> string" where
  "string_form v = (case String_js v of Inr s \<Rightarrow> s | Inl e \<Rightarrow> [])"

section \<open>Classification of arrays\<close>

text \<open>The loop of \<open>_isUniformObjectArray\<close> over the items after the first.\<close>

fun uniform_rest :: "string list \<Rightarrow> jsvalue list \<Rightarrow> bool" where
  "uniform_rest firstKeys [] = True"
| "uniform_rest firstKeys (item # rest) =
     (case item of
        JObject kvs \<Rightarrow>
          (let itemKeys = map fst kvs in
           if length firstKeys \<noteq> length itemKeys then False
           else if \<not> list_all (\<lambda>key. key \<in> set firstKeys) itemKeys then False
           else uniform_rest firstKeys rest)
      | _ \<Rightarrow> False)"

definition isUniformObjectArray :: "jsvalue \<Rightarrow> string list option" where
  "isUniformObjectArray arr =
     (case arr of
        JArray (firstItem # rest) \<Rightarrow>
          (case firstItem of
             JObject kvs \<Rightarrow>
               (let firstKeys = map fst kvs in
                if uniform_rest firstKeys rest then Some firstKeys else None)
           | _ \<Rightarrow> None)
      | _ \<Rightarrow> None)"

text \<open>\<open>typeof x === 'object' && x !== null\<close>\<close>

definition is_object_type :: "jsvalue \<Rightarrow> bool" where
  "is_object_type x = (case x of JObject _ \<Rightarrow> True | JArray _ \<Rightarrow> True | _ \<Rightarrow> False)"

definition isPrimitiveArray :: "jsvalue \<Rightarrow> bool" where
  "isPrimitiveArray arr =
     (case arr of
        JArray (firstItem # rest) \<Rightarrow>
          (if is_object_type firstItem then False
           else list_all (\<lambda>item. \<not> is_object_type item) rest)
      | _ \<Rightarrow> False)"

section \<open>Formatting\<close>

text \<open>\<open>str.replace(/"/g, '\\"')\<close>\<close>

definition replace_quotes :: "string \<Rightarrow> string" where
  "replace_quotes str = concat (map (\<lambda>c. if c = dquote then [backslash, dquote] else [c]) str)"

definition escapeValue :: "jsvalue \<Rightarrow> error + string" where
  "escapeValue v =
     (case String_js v of
        Inl e \<Rightarrow> Inl e
      | Inr str \<Rightarrow>
          Inr (if comma \<in> set str \<or> newline \<in> set str \<or> dquote \<in> set str
               then [dquote] @ replace_quotes str @ [dquote]
               else str))"

text \<open>
  \<open>item[key]\<close> on an object. \<open>_formatTabularArray\<close> reads only keys that every item
  owns, so the prototype chain is never reached; a missing key reads \<open>undefined\<close>.
\<close>

definition get_prop :: "jsvalue \<Rightarrow> string \<Rightarrow> jsvalue" where
  "get_prop item key =
     (case item of
        JObject kvs \<Rightarrow> (case map_of kvs key of Some v \<Rightarrow> v | None \<Rightarrow> JUndefined)
      | _ \<Rightarrow> JUndefined)"

text \<open>\<open>a ?? b\<close>\<close>

definition nullish :: "jsvalue \<Rightarrow> jsvalue \<Rightarrow> jsvalue" where
  "nullish a b = (case a of JUndefined \<Rightarrow> b | JNull \<Rightarrow> b | _ \<Rightarrow> a)"

definition tabular_row :: "string list \<Rightarrow> jsvalue \<Rightarrow> error + string" where
  "tabular_row keys item =
     (case collect (map (\<lambda>key. escapeValue (nullish (get_prop item key) (JString ''null''))) keys) of
        Inl e \<Rightarrow> Inl e
      | Inr cells \<Rightarrow> Inr (join [comma] cells))"

definition tabular_header :: "string \<Rightarrow> nat \<Rightarrow> string list \<Rightarrow> string" where
  "tabular_header prefix n keys =
     prefix @ ''['' @ show_nat n @ '']{'' @ join [comma] keys @ ''}:''"

text \<open>Destructuring \<open>null\<close> throws a TypeError when the array is not uniform.\<close>

definition formatTabularArray :: "jsvalue \<Rightarrow> string \<Rightarrow> error + string" where
  "formatTabularArray arr prefix =
     (case isUniformObjectArray arr of
        None \<Rightarrow> Inl TypeError
      | Some keys \<Rightarrow>
          (case arr of
             JArray xs \<Rightarrow>
               (case collect (map (tabular_row keys) xs) of
                  Inl e \<Rightarrow> Inl e
                | Inr rows \<Rightarrow>
                    Inr (tabular_header prefix (length xs) keys @ [newline] @ join [newline] rows))
           | _ \<Rightarrow> Inl TypeError))"

definition formatPrimitiveArray :: "jsvalue \<Rightarrow> string \<Rightarrow> error + string" where
  "formatPrimitiveArray arr prefix =
     (case arr of
        JArray xs \<Rightarrow>
          (case collect (map escapeValue xs) of
             Inl e \<Rightarrow> Inl e
           | Inr vals \<Rightarrow> Inr (prefix @ ''['' @ show_nat (length xs) @ '']:'' @ join [comma] vals))
      | _ \<Rightarrow> Inl TypeError)"

section \<open>Flattening\<close>

text \<open>
  \<open>_flatten\<close> pushes lines onto the array \<open>output\<close>; the model returns the extended
  array, or the error that aborts the walk. \<open>flatten_entries\<close> is the \<open>forEach\<close> over
  \<open>Object.entries(node)\<close>, \<open>flatten_items\<close> the \<open>forEach\<close> over the items with their
  index.
\<close>

fun flatten :: "jsvalue \<Rightarrow> string \<Rightarrow> string list \<Rightarrow> error + string list"
  and flatten_entries :: "(string \<times> jsvalue) list \<Rightarrow> string \<Rightarrow> string list \<Rightarrow> error + string list"
  and flatten_items :: "jsvalue list \<Rightarrow> nat \<Rightarrow> string \<Rightarrow> string list \<Rightarrow> error + string list"
where
  "flatten (JObject kvs) prefix output = flatten_entries kvs prefix output"
| "flatten (JArray xs) prefix output =
     (case isUniformObjectArray (JArray xs) of
        Some uniformCheck \<Rightarrow>
          (case formatTabularArray (JArray xs) prefix of
             Inl e \<Rightarrow> Inl e
           | Inr line \<Rightarrow> Inr (output @ [line]))
      | None \<Rightarrow>
          if isPrimitiveArray (JArray xs)
          then (case formatPrimitiveArray (JArray xs) prefix of
                  Inl e \<Rightarrow> Inl e
                | Inr line \<Rightarrow> Inr (output @ [line]))
          else flatten_items xs 0 prefix output)"
| "flatten node prefix output =
     (case String_js node of
        Inl e \<Rightarrow> Inl e
      | Inr s \<Rightarrow> Inr (output @ [(if prefix = [] then ''value'' else prefix) @ '':'' @ s]))"
| "flatten_entries [] prefix output = Inr output"
| "flatten_entries ((key, v) # rest) prefix output =
     (case flatten v (if prefix \<noteq> [] then prefix @ ''.'' @ key else key) output of
        Inl e \<Rightarrow> Inl e
      | Inr output' \<Rightarrow> flatten_entries rest prefix output')"
| "flatten_items [] index prefix output = Inr output"
| "flatten_items (item # rest) index prefix output =
     (case flatten item (prefix @ ''['' @ show_nat index @ '']'') output of
        Inl e \<Rightarrow> Inl e
      | Inr output' \<Rightarrow> flatten_items rest (Suc index) prefix output')"

section \<open>Prefix abbreviations\<close>

text \<open>
  The two options of \<open>BrevitConfig\<close> that the flattening pipeline reads. The
  threshold is a JavaScript number compared with the integer counts.
\<close>

record BrevitConfig =
  enableAbbreviations :: bool
  abbreviationThreshold :: int

definition default_config :: BrevitConfig where
  "default_config = \<lparr>enableAbbreviations = True, abbreviationThreshold = 2\<rparr>"

text \<open>\<open>str.split(c)\<close> for a one-character separator: never empty, \<open>''.split(c)\<close> is \<open>['']\<close>.\<close>

fun split_on :: "char \<Rightarrow> string \<Rightarrow> string list" where
  "split_on c [] = [[]]"
| "split_on c (x # xs) =
     (if x = c then [] # split_on c xs
      else (case split_on c xs of p # ps \<Rightarrow> (x # p) # ps | [] \<Rightarrow> [[x]]))"

text \<open>\<open>str.indexOf(c)\<close>, \<open>str.substring(a, b)\<close> for \<open>a \<le> b\<close>, \<open>str.substring(a)\<close>, \<open>str.startsWith(q)\<close>\<close>

definition indexOf :: "char \<Rightarrow> string \<Rightarrow> int" where
  "indexOf c s = (if c \<in> set s then int (length (takeWhile (\<lambda>x. x \<noteq> c) s)) else - 1)"

definition substring :: "string \<Rightarrow> int \<Rightarrow> int \<Rightarrow> string" where
  "substring s a b = take (nat b - nat a) (drop (nat a) s)"

definition substring_from :: "string \<Rightarrow> int \<Rightarrow> string" where
  "substring_from s a = drop (nat a) s"

definition startsWith :: "string \<Rightarrow> string \<Rightarrow> bool" where
  "startsWith s q = (take (length q) s = q)"

text \<open>
  \<open>toLowerCase\<close> on one code unit below \<open>0x100\<close>: the letters \<open>A .. Z\<close> and the
  Latin-1 capitals \<open>0xC0 .. 0xDE\<close> (without the multiplication sign \<open>0xD7\<close>) move up
  by \<open>0x20\<close>.
\<close>

definition toLowerCase_char :: "char \<Rightarrow> char" where
  "toLowerCase_char c =
     (let n = (of_char c :: nat) in
      if (65 \<le> n \<and> n \<le> 90) \<or> (192 \<le> n \<and> n \<le> 222 \<and> n \<noteq> 215)
      then char_of (n + 32) else c)"

text \<open>
  A \<open>Map\<close> keeps its keys in insertion order; \<open>set\<close> on a present key keeps the key's
  place. The model is an association list.
\<close>

fun map_set :: "('k \<times> 'v) list \<Rightarrow> 'k \<Rightarrow> 'v \<Rightarrow> ('k \<times> 'v) list" where
  "map_set [] k v = [(k, v)]"
| "map_set ((k', v') # m) k v = (if k' = k then (k, v) # m else (k', v') # map_set m k v)"

text \<open>The prefixes \<open>parts.slice(0, i).join('.')\<close> for \<open>1 \<le> i < parts.length\<close>.\<close>

definition path_prefixes :: "string \<Rightarrow> string list" where
  "path_prefixes path =
     (let parts = split_on (CHR ''.'') path in
      map (\<lambda>i. join ''.'' (take i parts)) [1..<length parts])"

definition bump :: "(string \<times> nat) list \<Rightarrow> string \<Rightarrow> (string \<times> nat) list" where
  "bump prefixCounts prefix =
     map_set prefixCounts prefix ((case map_of prefixCounts prefix of Some n \<Rightarrow> n | None \<Rightarrow> 0) + 1)"

definition prefixCounts :: "string list \<Rightarrow> (string \<times> nat) list" where
  "prefixCounts paths =
     fold (\<lambda>path m. fold (\<lambda>prefix m'. bump m' prefix) (path_prefixes path) m) paths []"

text \<open>
  \<open>Array.prototype.sort\<close> is stable; with a comparator that is a total preorder the
  result is the stable insertion sort.
\<close>

fun insert_cmp :: "('a \<Rightarrow> 'a \<Rightarrow> int) \<Rightarrow> 'a \<Rightarrow> 'a list \<Rightarrow> 'a list" where
  "insert_cmp cmp x [] = [x]"
| "insert_cmp cmp x (y # ys) = (if cmp x y \<le> 0 then x # y # ys else y # insert_cmp cmp x ys)"

definition sort_cmp :: "('a \<Rightarrow> 'a \<Rightarrow> int) \<Rightarrow> 'a list \<Rightarrow> 'a list" where
  "sort_cmp cmp xs = foldr (insert_cmp cmp) xs []"

definition prefix_cmp :: "string \<times> nat \<Rightarrow> string \<times> nat \<Rightarrow> int" where
  "prefix_cmp a b =
     (if snd b \<noteq> snd a then int (snd b) - int (snd a)
      else int (length (fst a)) - int (length (fst b)))"

definition frequentPrefixes :: "BrevitConfig \<Rightarrow> string list \<Rightarrow> (string \<times> nat) list" where
  "frequentPrefixes cfg paths =
     sort_cmp prefix_cmp
       (filter (\<lambda>(prefix, count). abbreviationThreshold cfg \<le> int count) (prefixCounts paths))"

text \<open>The \<open>do ... while (num >= 0)\<close> loop of strategy 3.\<close>

function counter_loop :: "int \<Rightarrow> string \<Rightarrow> string" where
  "counter_loop num abbr =
     (if 0 \<le> num div 26 - 1
      then counter_loop (num div 26 - 1) (char_of (97 + nat (num mod 26)) # abbr)
      else char_of (97 + nat (num mod 26)) # abbr)"
  by pat_completeness auto
termination
  by (relation "measure (\<lambda>(num, abbr). nat num)") auto

declare counter_loop.simps [simp del]

text \<open>
  \<open>_generateAbbreviation\<close> returns the alias and adds it to the set \<open>usedAbbrs\<close>; the
  model returns the alias with the updated set. \<open>prefix.split('.')[0][0]\<close> is
  \<open>undefined\<close> when the first segment is empty, and \<open>toLowerCase\<close> on it throws.
\<close>

definition generateAbbreviation :: "string \<Rightarrow> nat \<Rightarrow> string set \<Rightarrow> error + (string \<times> string set)" where
  "generateAbbreviation prefix counter usedAbbrs =
     (case split_on (CHR ''.'') prefix of
        [] \<Rightarrow> Inl TypeError
      | [] # _ \<Rightarrow> Inl TypeError
      | (c # _) # _ \<Rightarrow>
          (let firstLetter = [toLowerCase_char c] in
           if firstLetter \<notin> usedAbbrs then Inr (firstLetter, insert firstLetter usedAbbrs)
           else
             (let parts = split_on (CHR ''.'') prefix;
                  multiLetter = map toLowerCase_char (concat (map (take 1) parts)) in
              if 1 < length parts \<and> multiLetter \<notin> usedAbbrs \<and> length multiLetter \<le> 3
              then Inr (multiLetter, insert multiLetter usedAbbrs)
              else
                (let abbr = counter_loop (int counter) [] in
                 Inr (abbr, insert abbr usedAbbrs)))))"

text \<open>The local variables of \<open>_generateAbbreviations\<close> that its \<open>forEach\<close> updates.\<close>

record gen_state =
  abbreviationMap :: "(string \<times> string) list"
  definitions :: "string list"
  abbrCounter :: nat
  usedAbbrs :: "string set"

definition gen_init :: gen_state where
  "gen_init = \<lparr>abbreviationMap = [], definitions = [], abbrCounter = 0, usedAbbrs = {}\<rparr>"

definition definitionCost :: "string \<Rightarrow> string \<Rightarrow> int" where
  "definitionCost prefix abbr = int (length prefix) + int (length abbr) + 3"

definition savings :: "string \<Rightarrow> string \<Rightarrow> nat \<Rightarrow> int" where
  "savings prefix abbr count = (int (length prefix) - int (length abbr) - 1) * int count"

definition definition_line :: "string \<Rightarrow> string \<Rightarrow> string" where
  "definition_line prefix abbr = ''@'' @ abbr @ ''='' @ prefix"

definition abbr_step :: "gen_state \<Rightarrow> string \<times> nat \<Rightarrow> error + gen_state" where
  "abbr_step s pc =
     (case pc of (prefix, count) \<Rightarrow>
        (case generateAbbreviation prefix (abbrCounter s) (usedAbbrs s) of
           Inl e \<Rightarrow> Inl e
         | Inr (abbr, used) \<Rightarrow>
             if definitionCost prefix abbr < savings prefix abbr count
             then Inr \<lparr>abbreviationMap = map_set (abbreviationMap s) prefix abbr,
                       definitions = definitions s @ [definition_line prefix abbr],
                       abbrCounter = abbrCounter s + 1,
                       usedAbbrs = used\<rparr>
             else Inr (s\<lparr>usedAbbrs := used\<rparr>)))"

fun abbr_loop :: "(string \<times> nat) list \<Rightarrow> gen_state \<Rightarrow> error + gen_state" where
  "abbr_loop [] s = Inr s"
| "abbr_loop (pc # rest) s =
     (case abbr_step s pc of Inl e \<Rightarrow> Inl e | Inr s' \<Rightarrow> abbr_loop rest s')"

definition generateAbbreviations ::
  "BrevitConfig \<Rightarrow> string list \<Rightarrow> error + ((string \<times> string) list \<times> string list)" where
  "generateAbbreviations cfg paths =
     (if \<not> enableAbbreviations cfg then Inr ([], [])
      else (case abbr_loop (frequentPrefixes cfg paths) gen_init of
              Inl e \<Rightarrow> Inl e
            | Inr s \<Rightarrow> Inr (abbreviationMap s, definitions s)))"

text \<open>The loop of \<open>_applyAbbreviations\<close> with its variables \<open>bestMatch\<close> and \<open>bestAbbr\<close>.\<close>

fun best_match :: "string \<Rightarrow> (string \<times> string) list \<Rightarrow> string \<times> string \<Rightarrow> string \<times> string" where
  "best_match path [] best = best"
| "best_match path ((prefix, abbr) # rest) (bestMatch, bestAbbr) =
     (if startsWith path (prefix @ ''.'') \<and> length bestMatch < length prefix
      then best_match path rest (prefix, abbr)
      else best_match path rest (bestMatch, bestAbbr))"

definition applyAbbreviations :: "BrevitConfig \<Rightarrow> string \<Rightarrow> (string \<times> string) list \<Rightarrow> string" where
  "applyAbbreviations cfg path abbrMap =
     (if \<not> enableAbbreviations cfg \<or> abbrMap = [] then path
      else (case best_match path abbrMap ([], []) of
              (bestMatch, bestAbbr) \<Rightarrow>
                if bestMatch \<noteq> []
                then ''@'' @ bestAbbr @ ''.'' @ substring_from path (int (length bestMatch) + 1)
                else path))"

section \<open>The encoder\<close>

text \<open>The two callbacks of \<open>_flattenObject\<close> and the function itself.\<close>

definition path_of_line :: "string \<Rightarrow> string" where
  "path_of_line line =
     (let colonIndex = indexOf (CHR '':'') line in
      if 0 < colonIndex then
        (let pathPart = substring line 0 colonIndex;
             bracketIndex = indexOf (CHR ''['') pathPart in
         if 0 < bracketIndex then substring pathPart 0 bracketIndex else pathPart)
      else (case split_on (CHR '':'') line of p # _ \<Rightarrow> p | [] \<Rightarrow> []))"

definition rewrite_line :: "BrevitConfig \<Rightarrow> (string \<times> string) list \<Rightarrow> string \<Rightarrow> string" where
  "rewrite_line cfg abbrMap line =
     (let colonIndex = indexOf (CHR '':'') line in
      if colonIndex = - 1 then line
      else
        (let pathPart = substring line 0 colonIndex;
             valuePart = substring_from line colonIndex;
             bracketIndex = indexOf (CHR ''['') pathPart in
         if 0 < bracketIndex then
           (let basePath = substring pathPart 0 bracketIndex;
                rest = substring_from pathPart bracketIndex in
            applyAbbreviations cfg basePath abbrMap @ rest @ valuePart)
         else applyAbbreviations cfg pathPart abbrMap @ valuePart))"

definition flattenObject :: "BrevitConfig \<Rightarrow> jsvalue \<Rightarrow> error + string" where
  "flattenObject cfg obj =
     (case flatten obj [] [] of
        Inl e \<Rightarrow> Inl e
      | Inr output \<Rightarrow>
          (case generateAbbreviations cfg (map path_of_line output) of
             Inl e \<Rightarrow> Inl e
           | Inr (abbrMap, defs) \<Rightarrow>
               (let abbreviatedOutput = map (rewrite_line cfg abbrMap) output in
                if 0 < length defs
                then Inr (join [newline] defs @ [newline] @ join [newline] abbreviatedOutput)
                else Inr (join [newline] abbreviatedOutput))))"

section \<open>Renderings, as the specification names them\<close>

text \<open>
  The scalar renderer of the specification: strings pass through verbatim, numbers and
  booleans render in their canonical string form, \<open>null\<close> and the absent value both
  render as the literal \<open>null\<close>. Objects and arrays are no scalars.
\<close>

fun scalar_text :: "jsvalue \<Rightarrow> string" where
  "scalar_text JUndefined = ''null''"
| "scalar_text JNull = ''null''"
| "scalar_text (JBool b) = (if b then ''true'' else ''false'')"
| "scalar_text (JNum n) = n"
| "scalar_text (JString s) = s"
| "scalar_text (JObject kvs) = []"
| "scalar_text (JArray xs) = []"

text \<open>
  The escaping rule: a text with a comma, a newline or a double quote is wrapped in
  double quotes, each inner double quote preceded by a backslash.
\<close>

definition needs_quoting :: "string \<Rightarrow> bool" where
  "needs_quoting s = (comma \<in> set s \<or> newline \<in> set s \<or> dquote \<in> set s)"

primrec escape_dquotes :: "string \<Rightarrow> string" where
  "escape_dquotes [] = []"
| "escape_dquotes (c # cs) = (if c = dquote then backslash # dquote # escape_dquotes cs else c # escape_dquotes cs)"

definition csv_field :: "string \<Rightarrow> string" where
  "csv_field s = (if needs_quoting s then [dquote] @ escape_dquotes s @ [dquote] else s)"

text \<open>
  The line of the specification for a primitive array: \<open>prefix[n]:v1,...,vn\<close>, each
  value scalar-rendered and escaped.
\<close>

definition primitive_line :: "string \<Rightarrow> jsvalue list \<Rightarrow> string" where
  "primitive_line prefix xs =
     prefix @ ''['' @ show_nat (length xs) @ '']:'' @
     join [comma] (map (\<lambda>v. csv_field (scalar_text v)) xs)"

text \<open>
  The values on which \<open>String\<close> throws: an object with an own entry \<open>toString\<close>, and
  an array that holds such a value (lemma \<open>String_js_fails_iff\<close>).
\<close>

fun unstringable :: "jsvalue \<Rightarrow> bool" where
  "unstringable (JObject kvs) = (''toString'' \<in> set (map fst kvs))"
| "unstringable (JArray xs) = (\<exists>x\<in>set xs. unstringable x)"
| "unstringable v = False"

text \<open>
  A prefix whose first dot-segment is empty: the empty prefix, or one that starts with
  a dot. On these \<open>_generateAbbreviation\<close> throws.
\<close>

definition empty_first_segment :: "string \<Rightarrow> bool" where
  "empty_first_segment p = (case p of [] \<Rightarrow> True | c # _ \<Rightarrow> c = CHR ''.'')"

text \<open>
  The net-savings test of the specification: the savings
  \<open>(len(prefix) - len(alias) - 1) * count\<close> exceed the cost
  \<open>len(prefix) + len(alias) + 3\<close> of the definition line.
\<close>

definition net_beneficial :: "string \<Rightarrow> string \<Rightarrow> nat \<Rightarrow> bool" where
  "net_beneficial prefix alias count =
     (int (length prefix) + int (length alias) + 3
        < (int (length prefix) - int (length alias) - 1) * int count)"

text \<open>The definition lines of a table, in the order of its entries.\<close>

definition lines_of :: "(string \<times> string) list \<Rightarrow> string list" where
  "lines_of m = map (\<lambda>(p, a). definition_line p a) m"

section \<open>Scalars and escaping\<close>

lemma String_js_scalar: "\<not> is_object_type v \<Longrightarrow> String_js v = Inr (string_form v)"
  by (cases v) (auto simp: is_object_type_def string_form_def)

lemma string_form_scalar:
  "\<not> is_object_type v \<Longrightarrow> v \<noteq> JUndefined \<Longrightarrow> string_form v = scalar_text v"
  by (cases v) (auto simp: is_object_type_def string_form_def)

lemma flatten_scalar:
  "\<not> is_object_type v \<Longrightarrow>
   flatten v prefix output = Inr (output @ [(if prefix = [] then ''value'' else prefix) @ '':'' @ string_form v])"
  by (cases v) (auto simp: is_object_type_def string_form_def)

lemma replace_quotes_eq: "replace_quotes s = escape_dquotes s"
  by (induction s) (auto simp: replace_quotes_def)

lemma escapeValue_scalar: "\<not> is_object_type v \<Longrightarrow> escapeValue v = Inr (csv_field (string_form v))"
  by (simp add: escapeValue_def String_js_scalar csv_field_def needs_quoting_def replace_quotes_eq)

lemma collect_all_Inr: "(\<forall>x\<in>set xs. g x = Inr (f x)) \<Longrightarrow> collect (map g xs) = Inr (map f xs)"
  by (induction xs) auto

lemma isUniform_scalar_first: "\<not> is_object_type x \<Longrightarrow> isUniformObjectArray (JArray (x # rest)) = None"
  by (cases x) (auto simp: isUniformObjectArray_def is_object_type_def)

lemma isPrimitiveArray_iff:
  "isPrimitiveArray (JArray xs) \<longleftrightarrow> xs \<noteq> [] \<and> (\<forall>v \<in> set xs. \<not> is_object_type v)"
  by (cases xs) (auto simp: isPrimitiveArray_def list_all_iff)

lemma formatPrimitiveArray_scalars:
  "\<forall>v \<in> set xs. \<not> is_object_type v \<Longrightarrow>
   formatPrimitiveArray (JArray xs) prefix =
     Inr (prefix @ ''['' @ show_nat (length xs) @ '']:'' @ join [comma] (map (\<lambda>v. csv_field (string_form v)) xs))"
  by (simp add: formatPrimitiveArray_def collect_all_Inr [where f = "\<lambda>v. csv_field (string_form v)"] escapeValue_scalar)

text \<open>
  Claim C6. The string form of a scalar is what \<open>String\<close> returns for it.
  \<open>_escapeValue\<close> on a scalar wraps its string form in double quotes, with a
  backslash before each inner double quote, exactly when the string form holds a
  comma, a newline or a double quote, and returns it unchanged otherwise. The
  primitive-array line passes every element through it, the tabular row every cell
  (after \<open>?? 'null'\<close>). The single-value line \<open>path:value\<close> carries the string form
  of the scalar as it is.
\<close>

theorem C6_escaping_contexts:
  assumes "\<not> is_object_type v"
  shows "escapeValue v =
           Inr (if comma \<in> set (string_form v) \<or> newline \<in> set (string_form v) \<or>
                   dquote \<in> set (string_form v)
                then [dquote] @ escape_dquotes (string_form v) @ [dquote]
                else string_form v) \<and>
         ((\<forall>x\<in>set xs. \<not> is_object_type x) \<longrightarrow>
            formatPrimitiveArray (JArray xs) prefix =
              Inr (prefix @ ''['' @ show_nat (length xs) @ '']:'' @
                   join [comma] (map (\<lambda>x. csv_field (string_form x)) xs))) \<and>
         ((\<forall>key\<in>set keys. \<not> is_object_type (get_prop item key)) \<longrightarrow>
            tabular_row keys item =
              Inr (join [comma]
                     (map (\<lambda>key. csv_field (string_form (nullish (get_prop item key) (JString ''null''))))
                          keys))) \<and>
         flatten v prefix output =
           Inr (output @ [(if prefix = [] then ''value'' else prefix) @ '':'' @ string_form v])"
proof (intro conjI impI)
  from assms show "escapeValue v =
           Inr (if comma \<in> set (string_form v) \<or> newline \<in> set (string_form v) \<or>
                   dquote \<in> set (string_form v)
                then [dquote] @ escape_dquotes (string_form v) @ [dquote]
                else string_form v)"
    by (simp add: escapeValue_scalar csv_field_def needs_quoting_def)
next
  assume "\<forall>x\<in>set xs. \<not> is_object_type x"
  then show "formatPrimitiveArray (JArray xs) prefix =
              Inr (prefix @ ''['' @ show_nat (length xs) @ '']:'' @
                   join [comma] (map (\<lambda>x. csv_field (string_form x)) xs))"
    by (rule formatPrimitiveArray_scalars)
next
  assume a: "\<forall>key\<in>set keys. \<not> is_object_type (get_prop item key)"
  have "\<not> is_object_type (nullish (get_prop item key) (JString ''null''))" if "key \<in> set keys" for key
    using a that by (cases "get_prop item key") (auto simp: nullish_def is_object_type_def)
  then have "\<forall>key\<in>set keys. escapeValue (nullish (get_prop item key) (JString ''null'')) =
      Inr (csv_field (string_form (nullish (get_prop item key) (JString ''null''))))"
    by (simp add: escapeValue_scalar)
  then have "collect (map (\<lambda>key. escapeValue (nullish (get_prop item key) (JString ''null''))) keys) =
      Inr (map (\<lambda>key. csv_field (string_form (nullish (get_prop item key) (JString ''null'')))) keys)"
    by (rule collect_all_Inr)
  then show "tabular_row keys item =
              Inr (join [comma]
                     (map (\<lambda>key. csv_field (string_form (nullish (get_prop item key) (JString ''null''))))
                          keys))"
    by (simp add: tabular_row_def)
next
  from assms show "flatten v prefix output =
           Inr (output @ [(if prefix = [] then ''value'' else prefix) @ '':'' @ string_form v])"
    by (rule flatten_scalar)
qed

text \<open>
  The text \<open>a"b,c\<close> is quoted inside a primitive array and left as it is behind a
  key.
\<close>

theorem C6_witness:
  "escapeValue (JString (''a'' @ [dquote] @ ''b,c'')) =
     Inr ([dquote] @ ''a'' @ [backslash, dquote] @ ''b,c'' @ [dquote]) \<and>
   formatPrimitiveArray (JArray [JString (''a'' @ [dquote] @ ''b,c''), JString ''plain'']) ''k'' =
     Inr (''k[2]:'' @ [dquote] @ ''a'' @ [backslash, dquote] @ ''b,c'' @ [dquote] @ '',plain'') \<and>
   flatten (JString (''a'' @ [dquote] @ ''b,c'')) ''k'' [] = Inr [''k:a'' @ [dquote] @ ''b,c'']"
proof -
  let ?v = "JString (''a'' @ [dquote] @ ''b,c'')"
  let ?xs = "[?v, JString ''plain'']"
  have h: "\<not> is_object_type ?v" by (simp add: is_object_type_def)
  have hx: "\<forall>x\<in>set ?xs. \<not> is_object_type x" by (simp add: is_object_type_def)
  have r1: "(if comma \<in> set (string_form ?v) \<or> newline \<in> set (string_form ?v) \<or>
                   dquote \<in> set (string_form ?v)
                then [dquote] @ escape_dquotes (string_form ?v) @ [dquote]
                else string_form ?v) = [dquote] @ ''a'' @ [backslash, dquote] @ ''b,c'' @ [dquote]"
    by code_simp
  have r2: "''k'' @ ''['' @ show_nat (length ?xs) @ '']:'' @
                   join [comma] (map (\<lambda>x. csv_field (string_form x)) ?xs) =
            ''k[2]:'' @ [dquote] @ ''a'' @ [backslash, dquote] @ ''b,c'' @ [dquote] @ '',plain''"
    by code_simp
  have r3: "[] @ [(if ''k'' = [] then ''value'' else ''k'') @ '':'' @ string_form ?v] =
            [''k:a'' @ [dquote] @ ''b,c'']"
    by code_simp
  from C6_escaping_contexts [OF h, of ?xs "''k''" "[]" JNull "[]"] hx
  have "escapeValue ?v =
           Inr (if comma \<in> set (string_form ?v) \<or> newline \<in> set (string_form ?v) \<or>
                   dquote \<in> set (string_form ?v)
                then [dquote] @ escape_dquotes (string_form ?v) @ [dquote]
                else string_form ?v)"
    and "formatPrimitiveArray (JArray ?xs) ''k'' =
              Inr (''k'' @ ''['' @ show_nat (length ?xs) @ '']:'' @
                   join [comma] (map (\<lambda>x. csv_field (string_form x)) ?xs))"
    and "flatten ?v ''k'' [] =
           Inr ([] @ [(if ''k'' = [] then ''value'' else ''k'') @ '':'' @ string_form ?v])"
    by blast+
  then show ?thesis by (simp only: r1 r2 r3 simp_thms)
qed

section \<open>Primitive arrays\<close>

lemma length_join:
  "length (join sep xs) = sum_list (map length xs) + (length xs - 1) * length sep"
  by (induction sep xs rule: join.induct) simp_all

lemma sum_list_less:
  "\<forall>x\<in>set xs. g x \<le> (f x :: nat) \<Longrightarrow> \<exists>x\<in>set xs. g x < f x \<Longrightarrow>
   sum_list (map g xs) < sum_list (map f xs)"
proof (induction xs)
  case Nil
  then show ?case by simp
next
  case (Cons x xs)
  from Cons.prems(1) have le: "sum_list (map g xs) \<le> sum_list (map f xs)"
    by (intro sum_list_mono) simp
  show ?case
  proof (cases "g x < f x")
    case True
    with le show ?thesis by simp
  next
    case False
    with Cons.prems have "\<exists>x\<in>set xs. g x < f x" by auto
    with Cons.prems(1) Cons.IH have "sum_list (map g xs) < sum_list (map f xs)" by simp
    moreover from Cons.prems(1) have "g x \<le> f x" by simp
    ultimately show ?thesis by simp
  qed
qed

lemma field_undefined:
  "string_form JUndefined = ''undefined'' \<and> csv_field ''undefined'' = ''undefined'' \<and>
   csv_field ''null'' = ''null''"
  by code_simp

lemma primitive_line_iff:
  assumes "\<forall>v \<in> set xs. \<not> is_object_type v"
  shows "prefix @ ''['' @ show_nat (length xs) @ '']:'' @
           join [comma] (map (\<lambda>v. csv_field (string_form v)) xs) = primitive_line prefix xs
         \<longleftrightarrow> JUndefined \<notin> set xs"
proof
  assume nu: "JUndefined \<notin> set xs"
  have "csv_field (string_form v) = csv_field (scalar_text v)" if "v \<in> set xs" for v
  proof -
    from that assms have "\<not> is_object_type v" by simp
    moreover from that nu have "v \<noteq> JUndefined" by auto
    ultimately show ?thesis by (simp add: string_form_scalar)
  qed
  then have "map (\<lambda>v. csv_field (string_form v)) xs = map (\<lambda>v. csv_field (scalar_text v)) xs"
    by simp
  then show "prefix @ ''['' @ show_nat (length xs) @ '']:'' @
           join [comma] (map (\<lambda>v. csv_field (string_form v)) xs) = primitive_line prefix xs"
    by (simp only: primitive_line_def)
next
  assume eq: "prefix @ ''['' @ show_nat (length xs) @ '']:'' @
           join [comma] (map (\<lambda>v. csv_field (string_form v)) xs) = primitive_line prefix xs"
  show "JUndefined \<notin> set xs"
  proof
    assume u: "JUndefined \<in> set xs"
    let ?f = "\<lambda>v. length (csv_field (string_form v))"
    let ?g = "\<lambda>v. length (csv_field (scalar_text v))"
    have le: "\<forall>v\<in>set xs. ?g v \<le> ?f v"
    proof
      fix v assume "v \<in> set xs"
      with assms have "\<not> is_object_type v" by simp
      then show "?g v \<le> ?f v"
        by (cases "v = JUndefined") (simp_all add: field_undefined string_form_scalar)
    qed
    from u have "\<exists>v\<in>set xs. ?g v < ?f v"
      by (intro bexI [of _ JUndefined]) (simp_all add: field_undefined)
    with le have lt: "sum_list (map ?g xs) < sum_list (map ?f xs)" by (rule sum_list_less)
    from eq have "join [comma] (map (\<lambda>v. csv_field (string_form v)) xs) =
                  join [comma] (map (\<lambda>v. csv_field (scalar_text v)) xs)"
      by (simp add: primitive_line_def)
    then have "length (join [comma] (map (\<lambda>v. csv_field (string_form v)) xs)) =
               length (join [comma] (map (\<lambda>v. csv_field (scalar_text v)) xs))"
      by simp
    then have "sum_list (map ?f xs) = sum_list (map ?g xs)"
      by (simp add: length_join comp_def)
    with lt show False by simp
  qed
qed

text \<open>
  Claim C7. A non-empty array whose elements are all scalars (neither objects nor
  arrays; \<open>null\<close> and \<open>undefined\<close> are scalars) is not uniform, is primitive, and
  \<open>_flatten\<close> pushes exactly one line for it: the prefix, the length in brackets, a
  colon, and the string forms of the elements, each escaped, joined by commas. That
  line is the line of the specification exactly when no element is \<open>undefined\<close>:
  \<open>_formatPrimitiveArray\<close> passes an \<open>undefined\<close> element to \<open>String\<close>, which writes
  \<open>undefined\<close> where the scalar renderer writes \<open>null\<close>.
\<close>

theorem C7_primitive_array_line:
  assumes "xs \<noteq> []" and "\<forall>v \<in> set xs. \<not> is_object_type v"
  shows "isUniformObjectArray (JArray xs) = None \<and> isPrimitiveArray (JArray xs) \<and>
         flatten (JArray xs) prefix output =
           Inr (output @ [prefix @ ''['' @ show_nat (length xs) @ '']:'' @
                          join [comma] (map (\<lambda>v. csv_field (string_form v)) xs)]) \<and>
         (flatten (JArray xs) prefix output = Inr (output @ [primitive_line prefix xs])
            \<longleftrightarrow> JUndefined \<notin> set xs)"
proof -
  from assms obtain x rest where xs: "xs = x # rest" by (cases xs) auto
  with assms have u: "isUniformObjectArray (JArray xs) = None"
    by (simp add: isUniform_scalar_first)
  from assms have p: "isPrimitiveArray (JArray xs)" by (simp add: isPrimitiveArray_iff)
  have f: "flatten (JArray xs) prefix output =
           Inr (output @ [prefix @ ''['' @ show_nat (length xs) @ '']:'' @
                          join [comma] (map (\<lambda>v. csv_field (string_form v)) xs)])"
    using u p by (simp add: formatPrimitiveArray_scalars [OF assms(2)])
  have "flatten (JArray xs) prefix output = Inr (output @ [primitive_line prefix xs]) \<longleftrightarrow>
        prefix @ ''['' @ show_nat (length xs) @ '']:'' @
          join [comma] (map (\<lambda>v. csv_field (string_form v)) xs) = primitive_line prefix xs"
    by (simp only: f sum.inject same_append_eq list.inject simp_thms)
  also have "\<dots> \<longleftrightarrow> JUndefined \<notin> set xs"
    using assms(2) by (rule primitive_line_iff)
  finally have i: "flatten (JArray xs) prefix output = Inr (output @ [primitive_line prefix xs])
            \<longleftrightarrow> JUndefined \<notin> set xs" .
  from u p f i show ?thesis by blast
qed

text \<open>
  The example of the claim, \<open>{friends: ["ana", "luis", "sam"]}\<close>, gives the line of
  the specification. The array \<open>[undefined, 1]\<close> under the key \<open>a\<close> gives
  \<open>a[2]:undefined,1\<close>, where the specification has \<open>a[2]:null,1\<close>.
\<close>

theorem C7_witness:
  "flatten (JArray [JString ''ana'', JString ''luis'', JString ''sam'']) ''friends'' [] =
     Inr [''friends[3]:ana,luis,sam''] \<and>
   flattenObject default_config
     (JObject [(''friends'', JArray [JString ''ana'', JString ''luis'', JString ''sam''])]) =
     Inr ''friends[3]:ana,luis,sam'' \<and>
   flatten (JArray [JUndefined, JNum ''1'']) ''a'' [] = Inr [''a[2]:undefined,1''] \<and>
   flatten (JArray [JUndefined, JNum ''1'']) ''a'' [] \<noteq> Inr [primitive_line ''a'' [JUndefined, JNum ''1'']] \<and>
   primitive_line ''a'' [JUndefined, JNum ''1''] = ''a[2]:null,1'' \<and>
   flattenObject default_config (JObject [(''a'', JArray [JUndefined, JNum ''1''])]) =
     Inr ''a[2]:undefined,1''"
proof -
  let ?xs = "[JString ''ana'', JString ''luis'', JString ''sam'']"
  let ?ys = "[JUndefined, JNum ''1'']"
  have enc: "flattenObject default_config (JObject [(''friends'', JArray ?xs)]) =
     Inr ''friends[3]:ana,luis,sam''"
    by code_simp
  have enc2: "flattenObject default_config (JObject [(''a'', JArray ?ys)]) = Inr ''a[2]:undefined,1''"
    by code_simp
  have pl: "primitive_line ''a'' ?ys = ''a[2]:null,1''" by code_simp
  have h1: "?xs \<noteq> []" by simp
  have h2: "\<forall>v \<in> set ?xs. \<not> is_object_type v" by (simp add: is_object_type_def)
  have k1: "?ys \<noteq> []" by simp
  have k2: "\<forall>v \<in> set ?ys. \<not> is_object_type v" by (simp add: is_object_type_def)
  have k3: "JUndefined \<in> set ?ys" by simp
  have r: "[] @ [''friends'' @ ''['' @ show_nat (length ?xs) @ '']:'' @
            join [comma] (map (\<lambda>v. csv_field (string_form v)) ?xs)] = [''friends[3]:ana,luis,sam'']"
    by code_simp
  have q: "[] @ [''a'' @ ''['' @ show_nat (length ?ys) @ '']:'' @
            join [comma] (map (\<lambda>v. csv_field (string_form v)) ?ys)] = [''a[2]:undefined,1'']"
    by code_simp
  from C7_primitive_array_line [OF h1 h2, of "''friends''" "[]"]
  have "flatten (JArray ?xs) ''friends'' [] =
          Inr ([] @ [''friends'' @ ''['' @ show_nat (length ?xs) @ '']:'' @
            join [comma] (map (\<lambda>v. csv_field (string_form v)) ?xs)])" by blast
  then have A: "flatten (JArray ?xs) ''friends'' [] = Inr [''friends[3]:ana,luis,sam'']"
    by (simp only: r)
  from C7_primitive_array_line [OF k1 k2, of "''a''" "[]"]
  have "flatten (JArray ?ys) ''a'' [] =
          Inr ([] @ [''a'' @ ''['' @ show_nat (length ?ys) @ '']:'' @
            join [comma] (map (\<lambda>v. csv_field (string_form v)) ?ys)])"
    and n: "flatten (JArray ?ys) ''a'' [] = Inr ([] @ [primitive_line ''a'' ?ys]) \<longleftrightarrow>
            JUndefined \<notin> set ?ys"
    by blast+
  then have B: "flatten (JArray ?ys) ''a'' [] = Inr [''a[2]:undefined,1'']"
    by (simp only: q)
  from n k3 have C: "flatten (JArray ?ys) ''a'' [] \<noteq> Inr [primitive_line ''a'' ?ys]"
    by (simp only: append_Nil simp_thms not_False_eq_True)
  from A enc B C pl enc2 show ?thesis by blast
qed

section \<open>Tabular rows\<close>

lemma escapeValue_cell:
  "\<not> is_object_type v \<Longrightarrow>
   escapeValue (nullish v (JString ''null'')) = Inr (csv_field (scalar_text v))"
  by (cases v)
     (auto simp: nullish_def is_object_type_def escapeValue_def string_form_def csv_field_def
                 needs_quoting_def replace_quotes_eq)

lemma tabular_row_cells:
  assumes "\<forall>key\<in>set keys. \<not> is_object_type (get_prop item key)"
  shows "tabular_row keys item =
           Inr (join [comma] (map (\<lambda>key. csv_field (scalar_text (get_prop item key))) keys))"
proof -
  from assms have "\<forall>key\<in>set keys.
      escapeValue (nullish (get_prop item key) (JString ''null'')) =
        Inr (csv_field (scalar_text (get_prop item key)))"
    by (auto intro: escapeValue_cell)
  then have "collect (map (\<lambda>key. escapeValue (nullish (get_prop item key) (JString ''null''))) keys) =
             Inr (map (\<lambda>key. csv_field (scalar_text (get_prop item key))) keys)"
    by (rule collect_all_Inr)
  then show ?thesis by (simp add: tabular_row_def)
qed

lemma collect_Inl: "\<exists>x\<in>set xs. g x = Inl TypeError \<Longrightarrow> collect (map g xs) = Inl TypeError"
proof (induction xs)
  case Nil
  then show ?case by simp
next
  case (Cons x xs)
  show ?case
  proof (cases "g x")
    case (Inl e)
    then show ?thesis by (cases e) simp
  next
    case (Inr y)
    with Cons.prems have "\<exists>x\<in>set xs. g x = Inl TypeError" by auto
    with Cons.IH Inr show ?thesis by simp
  qed
qed

lemma collect_Inl_iff: "(\<exists>e. collect rs = Inl e) \<longleftrightarrow> (\<exists>r\<in>set rs. \<exists>e. r = Inl e)"
proof (induction rs)
  case Nil
  show ?case by simp
next
  case (Cons r rs)
  then show ?case by (cases r) (auto split: sum.splits)
qed

lemma collect_Inr: "\<forall>x\<in>set xs. \<exists>y. g x = Inr y \<Longrightarrow> \<exists>ys. collect (map g xs) = Inr ys"
proof -
  assume a: "\<forall>x\<in>set xs. \<exists>y. g x = Inr y"
  have "\<not> (\<exists>e. collect (map g xs) = Inl e)"
    unfolding collect_Inl_iff using a by auto
  then show ?thesis by (cases "collect (map g xs)") auto
qed

lemma String_js_fails_iff: "String_js v = Inl TypeError \<longleftrightarrow> unstringable v"
proof (induction v)
  case (JArray xs)
  let ?g = "\<lambda>v. case v of JUndefined \<Rightarrow> Inr [] | JNull \<Rightarrow> Inr [] | _ \<Rightarrow> String_js v"
  have g: "(\<exists>e. ?g x = Inl e) \<longleftrightarrow> unstringable x" if "x \<in> set xs" for x
  proof -
    have "(\<exists>e. String_js x = Inl e) \<longleftrightarrow> String_js x = Inl TypeError"
      by (metis error.exhaust)
    with JArray [OF that] show ?thesis by (cases x) auto
  qed
  have "String_js (JArray xs) = Inl TypeError \<longleftrightarrow> (\<exists>e. collect (map ?g xs) = Inl e)"
    by (auto split: sum.splits intro: error.exhaust)
  also have "\<dots> \<longleftrightarrow> (\<exists>x\<in>set xs. \<exists>e. ?g x = Inl e)"
    by (simp add: collect_Inl_iff)
  also have "\<dots> \<longleftrightarrow> (\<exists>x\<in>set xs. unstringable x)"
    using g by blast
  finally show ?case by simp
qed simp_all

lemma escapeValue_fails:
  "unstringable v \<Longrightarrow> escapeValue (nullish v (JString ''null'')) = Inl TypeError"
  using String_js_fails_iff [of v] by (cases v) (auto simp: nullish_def escapeValue_def)

lemma escapeValue_returns:
  "\<not> unstringable v \<Longrightarrow> \<exists>s. escapeValue (nullish v (JString ''null'')) = Inr s"
proof -
  assume "\<not> unstringable v"
  then have "String_js v \<noteq> Inl TypeError" by (simp add: String_js_fails_iff)
  then obtain s where "String_js v = Inr s"
    by (cases "String_js v") (auto intro: error.exhaust)
  then show ?thesis by (cases v) (auto simp: nullish_def escapeValue_def)
qed

lemma tabular_row_fails:
  assumes "\<exists>key\<in>set keys. unstringable (get_prop item key)"
  shows "tabular_row keys item = Inl TypeError"
proof -
  from assms have "\<exists>key\<in>set keys.
      escapeValue (nullish (get_prop item key) (JString ''null'')) = Inl TypeError"
    by (auto intro: escapeValue_fails)
  then have "collect (map (\<lambda>key. escapeValue (nullish (get_prop item key) (JString ''null''))) keys) =
             Inl TypeError"
    by (rule collect_Inl)
  then show ?thesis by (simp add: tabular_row_def)
qed

lemma tabular_row_returns:
  assumes "\<forall>key\<in>set keys. \<not> unstringable (get_prop item key)"
  shows "\<exists>row. tabular_row keys item = Inr row"
proof -
  from assms have "\<forall>key\<in>set keys.
      \<exists>s. escapeValue (nullish (get_prop item key) (JString ''null'')) = Inr s"
    by (auto intro: escapeValue_returns)
  then have "\<exists>cells. collect (map (\<lambda>key. escapeValue (nullish (get_prop item key) (JString ''null''))) keys) =
             Inr cells"
    by (rule collect_Inr)
  then show ?thesis by (auto simp: tabular_row_def)
qed

lemma uniform_rest_same_keys:
  "\<forall>item\<in>set rest. \<exists>kvs'. item = JObject kvs' \<and> length kvs' = length kvs \<and>
       set (map fst kvs') = set (map fst kvs) \<Longrightarrow>
   uniform_rest (map fst kvs) rest"
  by (induction rest) (auto simp: list_all_iff)

text \<open>
  Claim C1. Let the first element of a non-empty array be an object and let every
  other element be an object with as many keys and the same key set (in any order).
  Then the array is classified uniform with the key order of the first element. When
  every cell is a scalar, \<open>_flatten\<close> pushes exactly one line: the header
  \<open>prefix[n]{keys joined by ,}:\<close>, then one row per element in order, each the
  element's cells for those keys in that order, scalar-rendered and escaped, joined by
  commas, \<open>null\<close> and the absent value written \<open>null\<close>. In general \<open>_flatten\<close> pushes
  one line exactly when \<open>String\<close> returns on every cell; when some cell is an object
  with an own entry \<open>toString\<close> (or an array holding one), \<open>_formatTabularArray\<close>
  throws a TypeError and no line is pushed.
\<close>

theorem C1_uniform_tabular:
  assumes "\<forall>item\<in>set rest. \<exists>kvs'. item = JObject kvs' \<and> length kvs' = length kvs \<and>
             set (map fst kvs') = set (map fst kvs)"
  shows "isUniformObjectArray (JArray (JObject kvs # rest)) = Some (map fst kvs) \<and>
         ((\<forall>item\<in>set (JObject kvs # rest). \<forall>key\<in>set (map fst kvs).
             \<not> is_object_type (get_prop item key)) \<longrightarrow>
          flatten (JArray (JObject kvs # rest)) prefix output =
            Inr (output @
              [prefix @ ''['' @ show_nat (length (JObject kvs # rest)) @ '']{'' @
               join [comma] (map fst kvs) @ ''}:'' @ [newline] @
               join [newline]
                 (map (\<lambda>item. join [comma]
                         (map (\<lambda>key. csv_field (scalar_text (get_prop item key))) (map fst kvs)))
                      (JObject kvs # rest))])) \<and>
         ((\<exists>line. flatten (JArray (JObject kvs # rest)) prefix output = Inr (output @ [line])) \<longleftrightarrow>
          (\<forall>item\<in>set (JObject kvs # rest). \<forall>key\<in>set (map fst kvs).
             \<not> unstringable (get_prop item key))) \<and>
         (flatten (JArray (JObject kvs # rest)) prefix output = Inl TypeError \<longleftrightarrow>
          (\<exists>item\<in>set (JObject kvs # rest). \<exists>key\<in>set (map fst kvs).
             unstringable (get_prop item key)))"
proof -
  let ?arr = "JObject kvs # rest"
  let ?keys = "map fst kvs"
  from assms have u: "isUniformObjectArray (JArray ?arr) = Some ?keys"
    by (simp add: isUniformObjectArray_def uniform_rest_same_keys)
  have ok: "flatten (JArray ?arr) prefix output =
            Inr (output @
              [prefix @ ''['' @ show_nat (length ?arr) @ '']{'' @
               join [comma] ?keys @ ''}:'' @ [newline] @
               join [newline]
                 (map (\<lambda>item. join [comma] (map (\<lambda>key. csv_field (scalar_text (get_prop item key))) ?keys))
                      ?arr)])"
    if cells: "\<forall>item\<in>set ?arr. \<forall>key\<in>set ?keys. \<not> is_object_type (get_prop item key)"
  proof -
    have "\<forall>item\<in>set ?arr. tabular_row ?keys item =
        Inr (join [comma] (map (\<lambda>key. csv_field (scalar_text (get_prop item key))) ?keys))"
    proof (intro ballI)
      fix item assume "item \<in> set ?arr"
      with cells have "\<forall>key\<in>set ?keys. \<not> is_object_type (get_prop item key)" by blast
      then show "tabular_row ?keys item =
        Inr (join [comma] (map (\<lambda>key. csv_field (scalar_text (get_prop item key))) ?keys))"
        by (rule tabular_row_cells)
    qed
    then have "collect (map (tabular_row ?keys) ?arr) =
        Inr (map (\<lambda>item. join [comma] (map (\<lambda>key. csv_field (scalar_text (get_prop item key))) ?keys)) ?arr)"
      by (rule collect_all_Inr)
    then have "formatTabularArray (JArray ?arr) prefix =
        Inr (tabular_header prefix (length ?arr) ?keys @ [newline] @
             join [newline]
               (map (\<lambda>item. join [comma] (map (\<lambda>key. csv_field (scalar_text (get_prop item key))) ?keys)) ?arr))"
      using u by (simp add: formatTabularArray_def)
    with u show ?thesis by (simp add: tabular_header_def)
  qed
  have good: "\<exists>line. flatten (JArray ?arr) prefix output = Inr (output @ [line])"
    if cells: "\<forall>item\<in>set ?arr. \<forall>key\<in>set ?keys. \<not> unstringable (get_prop item key)"
  proof -
    have "\<forall>item\<in>set ?arr. \<exists>row. tabular_row ?keys item = Inr row"
    proof (intro ballI)
      fix item assume "item \<in> set ?arr"
      with cells have "\<forall>key\<in>set ?keys. \<not> unstringable (get_prop item key)" by blast
      then show "\<exists>row. tabular_row ?keys item = Inr row" by (rule tabular_row_returns)
    qed
    then have "\<exists>rows. collect (map (tabular_row ?keys) ?arr) = Inr rows"
      by (rule collect_Inr)
    then obtain rows where "collect (map (tabular_row ?keys) ?arr) = Inr rows" by blast
    then have "formatTabularArray (JArray ?arr) prefix =
        Inr (tabular_header prefix (length ?arr) ?keys @ [newline] @ join [newline] rows)"
      using u by (simp add: formatTabularArray_def)
    with u show ?thesis by simp
  qed
  have bad: "flatten (JArray ?arr) prefix output = Inl TypeError"
    if cell: "\<exists>item\<in>set ?arr. \<exists>key\<in>set ?keys. unstringable (get_prop item key)"
  proof -
    from cell obtain item where i: "item \<in> set ?arr"
      and "\<exists>key\<in>set ?keys. unstringable (get_prop item key)" by blast
    then have "tabular_row ?keys item = Inl TypeError" by (intro tabular_row_fails)
    with i have "\<exists>item\<in>set ?arr. tabular_row ?keys item = Inl TypeError" by blast
    then have "collect (map (tabular_row ?keys) ?arr) = Inl TypeError"
      by (rule collect_Inl)
    then have "formatTabularArray (JArray ?arr) prefix = Inl TypeError"
      using u by (simp add: formatTabularArray_def)
    with u show ?thesis by simp
  qed
  have one: "(\<exists>line. flatten (JArray ?arr) prefix output = Inr (output @ [line])) \<longleftrightarrow>
          (\<forall>item\<in>set ?arr. \<forall>key\<in>set ?keys. \<not> unstringable (get_prop item key))"
    using good bad by (metis sum.distinct(1))
  have none: "flatten (JArray ?arr) prefix output = Inl TypeError \<longleftrightarrow>
          (\<exists>item\<in>set ?arr. \<exists>key\<in>set ?keys. unstringable (get_prop item key))"
    using good bad by (metis sum.distinct(1))
  from u ok one none show ?thesis by blast
qed

text \<open>
  Two records with their keys in different orders, a \<open>null\<close> and a comma, give the
  line of the claim. The one record \<open>{a: {toString: 1}}\<close> under the key \<open>items\<close>
  makes a uniform array, and the encoder throws on it.
\<close>

theorem C1_witness:
  "isUniformObjectArray
     (JArray [JObject [(''sku'', JString ''A-88''), (''qty'', JNum ''1'')],
              JObject [(''qty'', JNull), (''sku'', JString ''T,22'')]]) = Some [''sku'', ''qty''] \<and>
   flatten
     (JArray [JObject [(''sku'', JString ''A-88''), (''qty'', JNum ''1'')],
              JObject [(''qty'', JNull), (''sku'', JString ''T,22'')]]) ''items'' [] =
     Inr [''items[2]{sku,qty}:'' @ [newline] @ ''A-88,1'' @ [newline] @ [dquote] @ ''T,22'' @ [dquote] @ '',null''] \<and>
   isUniformObjectArray (JArray [JObject [(''a'', JObject [(''toString'', JNum ''1'')])]]) = Some [''a''] \<and>
   flatten (JArray [JObject [(''a'', JObject [(''toString'', JNum ''1'')])]]) ''items'' [] = Inl TypeError \<and>
   flattenObject default_config
     (JObject [(''items'', JArray [JObject [(''a'', JObject [(''toString'', JNum ''1'')])]])]) = Inl TypeError"
proof -
  let ?kvs = "[(''sku'', JString ''A-88''), (''qty'', JNum ''1'')]"
  let ?rest = "[JObject [(''qty'', JNull), (''sku'', JString ''T,22'')]]"
  let ?bad = "[(''a'', JObject [(''toString'', JNum ''1'')])]"
  have h: "\<forall>item\<in>set ?rest. \<exists>kvs'. item = JObject kvs' \<and> length kvs' = length ?kvs \<and>
             set (map fst kvs') = set (map fst ?kvs)"
    by auto
  have c: "\<forall>item\<in>set (JObject ?kvs # ?rest). \<forall>key\<in>set (map fst ?kvs).
             \<not> is_object_type (get_prop item key)"
    by (simp add: get_prop_def is_object_type_def)
  have k: "map fst ?kvs = [''sku'', ''qty'']" by simp
  have r: "[] @ [''items'' @ ''['' @ show_nat (length (JObject ?kvs # ?rest)) @ '']{'' @
               join [comma] (map fst ?kvs) @ ''}:'' @ [newline] @
               join [newline]
                 (map (\<lambda>item. join [comma]
                         (map (\<lambda>key. csv_field (scalar_text (get_prop item key))) (map fst ?kvs)))
                      (JObject ?kvs # ?rest))] =
           [''items[2]{sku,qty}:'' @ [newline] @ ''A-88,1'' @ [newline] @ [dquote] @ ''T,22'' @ [dquote] @ '',null'']"
    by code_simp
  from C1_uniform_tabular [OF h, of "''items''" "[]"] c
  have A: "isUniformObjectArray (JArray (JObject ?kvs # ?rest)) = Some (map fst ?kvs)"
    and B: "flatten (JArray (JObject ?kvs # ?rest)) ''items'' [] =
            Inr ([] @
              [''items'' @ ''['' @ show_nat (length (JObject ?kvs # ?rest)) @ '']{'' @
               join [comma] (map fst ?kvs) @ ''}:'' @ [newline] @
               join [newline]
                 (map (\<lambda>item. join [comma]
                         (map (\<lambda>key. csv_field (scalar_text (get_prop item key))) (map fst ?kvs)))
                      (JObject ?kvs # ?rest))])"
    by blast+
  from A have A': "isUniformObjectArray (JArray (JObject ?kvs # ?rest)) = Some [''sku'', ''qty'']"
    by (simp only: k)
  from B have B': "flatten (JArray (JObject ?kvs # ?rest)) ''items'' [] =
     Inr [''items[2]{sku,qty}:'' @ [newline] @ ''A-88,1'' @ [newline] @ [dquote] @ ''T,22'' @ [dquote] @ '',null'']"
    by (simp only: r)
  have hb: "\<forall>item\<in>set []. \<exists>kvs'. item = JObject kvs' \<and> length kvs' = length ?bad \<and>
             set (map fst kvs') = set (map fst ?bad)"
    by simp
  have cb: "\<exists>item\<in>set [JObject ?bad]. \<exists>key\<in>set (map fst ?bad). unstringable (get_prop item key)"
    by (simp add: get_prop_def)
  have kb: "map fst ?bad = [''a'']" by simp
  from C1_uniform_tabular [OF hb, of "''items''" "[]"] cb
  have C: "isUniformObjectArray (JArray [JObject ?bad]) = Some (map fst ?bad)"
    and D: "flatten (JArray [JObject ?bad]) ''items'' [] = Inl TypeError"
    by blast+
  from C have C': "isUniformObjectArray (JArray [JObject ?bad]) = Some [''a'']"
    by (simp only: kb)
  have E: "flattenObject default_config (JObject [(''items'', JArray [JObject ?bad])]) = Inl TypeError"
    by code_simp
  from A' B' C' D E show ?thesis by blast
qed

section \<open>The walk appends lines\<close>








section \<open>Empty objects and arrays\<close>

text \<open>
  Claim C10. For the object with no keys \<open>_flatten\<close> pushes no line, no abbreviation
  is generated from the empty list of paths, and \<open>_flattenObject\<close> returns the empty
  string, under every configuration.
\<close>

theorem C10_empty_object:
  "flatten (JObject []) prefix output = Inr output \<and>
   generateAbbreviations cfg [] = Inr ([], []) \<and>
   flattenObject cfg (JObject []) = Inr []"
  by (simp add: flattenObject_def generateAbbreviations_def frequentPrefixes_def prefixCounts_def sort_cmp_def gen_init_def)

text \<open>The default configuration.\<close>

theorem C10_witness:
  "flattenObject default_config (JObject []) = Inr []"
  using C10_empty_object [of "[]" "[]" default_config] by simp

text \<open>
  Claim C5. The empty array is neither uniform nor primitive. \<open>_flatten\<close> has no
  case for length zero: the \<open>forEach\<close> over no items pushes nothing, so the array
  leaves no trace in the output, and \<open>{items: []}\<close> encodes to the empty string
  where the claim expects an empty-array literal.
\<close>

theorem C5_empty_array_emits_nothing:
  "isUniformObjectArray (JArray []) = None \<and> \<not> isPrimitiveArray (JArray []) \<and>
   flatten (JArray []) prefix output = Inr output \<and>
   flattenObject cfg (JObject [(''items'', JArray [])]) = Inr []"
  by (simp add: isUniformObjectArray_def isPrimitiveArray_def flattenObject_def
        generateAbbreviations_def frequentPrefixes_def prefixCounts_def sort_cmp_def gen_init_def)

text \<open>The object \<open>{items: []}\<close> leaves no line, under the default configuration too.\<close>

theorem C5_witness:
  "flatten (JObject [(''items'', JArray [])]) [] [] = Inr [] \<and>
   flattenObject default_config (JObject [(''items'', JArray [])]) = Inr []"
  using C5_empty_array_emits_nothing [of "''items''" "[]" default_config] by simp

section \<open>The abbreviation table\<close>

lemma keys_map_set: "fst ` set (map_set m k v) = insert k (fst ` set m)"
proof (induction m)
  case Nil
  show ?case by simp
next
  case (Cons kv m)
  obtain k' v' where kv: "kv = (k', v')" by (cases kv)
  with Cons show ?case by (cases "k' = k") auto
qed

lemma map_set_new: "k \<notin> fst ` set m \<Longrightarrow> map_set m k v = m @ [(k, v)]"
  by (induction m) auto

lemma distinct_map_set: "distinct (map fst m) \<Longrightarrow> distinct (map fst (map_set m k v))"
  by (induction m) (auto simp: keys_map_set)

lemma distinct_fold_bump:
  "distinct (map fst m) \<Longrightarrow> distinct (map fst (fold (\<lambda>prefix m'. bump m' prefix) ps m))"
  by (induction ps arbitrary: m) (auto simp: bump_def distinct_map_set)

lemma distinct_fold_paths:
  "distinct (map fst m) \<Longrightarrow>
   distinct (map fst (fold (\<lambda>path m. fold (\<lambda>prefix m'. bump m' prefix) (path_prefixes path) m) paths m))"
  by (induction paths arbitrary: m) (auto simp: distinct_fold_bump)

lemma distinct_prefixCounts: "distinct (map fst (prefixCounts paths))"
  by (simp add: prefixCounts_def distinct_fold_paths)

lemma set_insert_cmp: "set (insert_cmp cmp x ys) = insert x (set ys)"
  by (induction ys) auto

lemma distinct_insert_cmp:
  "distinct (map f (insert_cmp cmp x ys)) \<longleftrightarrow> f x \<notin> f ` set ys \<and> distinct (map f ys)"
  by (induction ys) (auto simp: set_insert_cmp)

lemma set_sort_cmp: "set (sort_cmp cmp xs) = set xs"
  by (induction xs) (auto simp: sort_cmp_def set_insert_cmp)

lemma distinct_sort_cmp: "distinct (map f (sort_cmp cmp xs)) \<longleftrightarrow> distinct (map f xs)"
  by (induction xs) (auto simp: sort_cmp_def distinct_insert_cmp set_sort_cmp [unfolded sort_cmp_def])

lemma distinct_frequentPrefixes: "distinct (map fst (frequentPrefixes cfg paths))"
  by (simp add: frequentPrefixes_def distinct_sort_cmp distinct_map_filter distinct_prefixCounts)

lemma set_frequentPrefixes:
  "set (frequentPrefixes cfg paths) =
     {(p, c). (p, c) \<in> set (prefixCounts paths) \<and> abbreviationThreshold cfg \<le> int c}"
  by (auto simp: frequentPrefixes_def set_sort_cmp)

lemma generateAbbreviation_used:
  "generateAbbreviation p n u = Inr (a, u') \<Longrightarrow> u' = insert a u"
  by (auto simp: generateAbbreviation_def Let_def split: list.splits if_splits)

lemma generateAbbreviation_nonempty: "generateAbbreviation p n u = Inr r \<Longrightarrow> p \<noteq> []"
  by (auto simp: generateAbbreviation_def split: list.splits)

lemma abbr_step_cases:
  assumes "abbr_step s (p, c) = Inr s'"
  shows "\<exists>a. generateAbbreviation p (abbrCounter s) (usedAbbrs s) = Inr (a, insert a (usedAbbrs s)) \<and>
             s' = (if net_beneficial p a c
                   then \<lparr>abbreviationMap = map_set (abbreviationMap s) p a,
                         definitions = definitions s @ [definition_line p a],
                         abbrCounter = abbrCounter s + 1,
                         usedAbbrs = insert a (usedAbbrs s)\<rparr>
                   else s\<lparr>usedAbbrs := insert a (usedAbbrs s)\<rparr>)"
proof (cases "generateAbbreviation p (abbrCounter s) (usedAbbrs s)")
  case (Inl e)
  with assms show ?thesis by (simp add: abbr_step_def)
next
  case (Inr r)
  obtain a u where r: "r = (a, u)" by (cases r)
  with Inr have u: "u = insert a (usedAbbrs s)" by (simp add: generateAbbreviation_used)
  from assms Inr r u show ?thesis
    by (auto simp: abbr_step_def net_beneficial_def definitionCost_def savings_def split: if_splits)
qed

lemma abbr_step_invariants:
  assumes "abbr_step s (p, c) = Inr s'" and "p \<notin> fst ` set (abbreviationMap s)"
  shows "set (abbreviationMap s) \<subseteq> set (abbreviationMap s')"
    and "fst ` set (abbreviationMap s') \<subseteq> insert p (fst ` set (abbreviationMap s))"
    and "usedAbbrs s \<subseteq> usedAbbrs s'"
    and "definitions s = lines_of (abbreviationMap s) \<Longrightarrow> definitions s' = lines_of (abbreviationMap s')"
    and "distinct (map fst (abbreviationMap s)) \<Longrightarrow> distinct (map fst (abbreviationMap s'))"
    and "[] \<notin> fst ` set (abbreviationMap s) \<Longrightarrow> [] \<notin> fst ` set (abbreviationMap s')"
proof -
  from abbr_step_cases [OF assms(1)] obtain a where
    g: "generateAbbreviation p (abbrCounter s) (usedAbbrs s) = Inr (a, insert a (usedAbbrs s))" and
    e: "s' = (if net_beneficial p a c
              then \<lparr>abbreviationMap = map_set (abbreviationMap s) p a,
                    definitions = definitions s @ [definition_line p a],
                    abbrCounter = abbrCounter s + 1,
                    usedAbbrs = insert a (usedAbbrs s)\<rparr>
              else s\<lparr>usedAbbrs := insert a (usedAbbrs s)\<rparr>)"
    by blast
  have y: "s' = \<lparr>abbreviationMap = map_set (abbreviationMap s) p a,
             definitions = definitions s @ [definition_line p a],
             abbrCounter = abbrCounter s + 1,
             usedAbbrs = insert a (usedAbbrs s)\<rparr>" if "net_beneficial p a c"
    using e that by simp
  have n: "s' = s\<lparr>usedAbbrs := insert a (usedAbbrs s)\<rparr>" if "\<not> net_beneficial p a c"
    using e that by simp
  from g have pne: "p \<noteq> []" by (rule generateAbbreviation_nonempty)
  have m: "map_set (abbreviationMap s) p a = abbreviationMap s @ [(p, a)]"
    using assms(2) by (rule map_set_new)
  show "set (abbreviationMap s) \<subseteq> set (abbreviationMap s')"
    using y n m by (cases "net_beneficial p a c") auto
  show "fst ` set (abbreviationMap s') \<subseteq> insert p (fst ` set (abbreviationMap s))"
    using y n m by (cases "net_beneficial p a c") auto
  show "usedAbbrs s \<subseteq> usedAbbrs s'"
    using y n by (cases "net_beneficial p a c") auto
  show "definitions s' = lines_of (abbreviationMap s')" if "definitions s = lines_of (abbreviationMap s)"
    using y n m that by (cases "net_beneficial p a c") (auto simp: lines_of_def)
  show "distinct (map fst (abbreviationMap s'))" if "distinct (map fst (abbreviationMap s))"
    using y n m that assms(2) by (cases "net_beneficial p a c") auto
  show "[] \<notin> fst ` set (abbreviationMap s')" if "[] \<notin> fst ` set (abbreviationMap s)"
    using y n m that pne by (cases "net_beneficial p a c") auto
qed

lemma abbr_loop_invariants:
  assumes "abbr_loop xs s = Inr s'" and "distinct (map fst xs)"
    and "fst ` set (abbreviationMap s) \<inter> fst ` set xs = {}"
  shows "set (abbreviationMap s) \<subseteq> set (abbreviationMap s') \<and>
         fst ` set (abbreviationMap s') \<subseteq> fst ` set (abbreviationMap s) \<union> fst ` set xs \<and>
         usedAbbrs s \<subseteq> usedAbbrs s' \<and>
         (definitions s = lines_of (abbreviationMap s) \<longrightarrow> definitions s' = lines_of (abbreviationMap s')) \<and>
         (distinct (map fst (abbreviationMap s)) \<longrightarrow> distinct (map fst (abbreviationMap s'))) \<and>
         ([] \<notin> fst ` set (abbreviationMap s) \<longrightarrow> [] \<notin> fst ` set (abbreviationMap s'))"
  using assms
proof (induction xs arbitrary: s)
  case Nil
  then show ?case by simp
next
  case (Cons pc rest)
  obtain p c where pc: "pc = (p, c)" by (cases pc)
  from Cons.prems(1) pc obtain s1 where
    st: "abbr_step s (p, c) = Inr s1" and lp: "abbr_loop rest s1 = Inr s'"
    by (auto split: sum.splits)
  from Cons.prems(3) pc have pn: "p \<notin> fst ` set (abbreviationMap s)" by auto
  note I = abbr_step_invariants [OF st pn]
  from Cons.prems(2) pc have d: "distinct (map fst rest)" and pr: "p \<notin> fst ` set rest" by auto
  from Cons.prems(3) pc have "fst ` set (abbreviationMap s) \<inter> fst ` set rest = {}" by auto
  with I(2) pr have dj: "fst ` set (abbreviationMap s1) \<inter> fst ` set rest = {}" by blast
  note J = Cons.IH [OF lp d dj]
  have ks: "fst ` set (pc # rest) = insert p (fst ` set rest)" by (simp add: pc)
  have c1: "set (abbreviationMap s) \<subseteq> set (abbreviationMap s')"
    using I(1) J by blast
  have c2: "fst ` set (abbreviationMap s') \<subseteq> fst ` set (abbreviationMap s) \<union> fst ` set (pc # rest)"
    unfolding ks using I(2) J by blast
  have c3: "usedAbbrs s \<subseteq> usedAbbrs s'"
    using I(3) J by blast
  have c4: "definitions s = lines_of (abbreviationMap s) \<longrightarrow> definitions s' = lines_of (abbreviationMap s')"
    using I(4) J by blast
  have c5: "distinct (map fst (abbreviationMap s)) \<longrightarrow> distinct (map fst (abbreviationMap s'))"
    using I(5) J by blast
  have c6: "[] \<notin> fst ` set (abbreviationMap s) \<longrightarrow> [] \<notin> fst ` set (abbreviationMap s')"
    using I(6) J by blast
  from c1 c2 c3 c4 c5 c6 show ?case by blast
qed

lemma abbr_loop_append:
  "abbr_loop (xs @ ys) s = (case abbr_loop xs s of Inl e \<Rightarrow> Inl e | Inr s' \<Rightarrow> abbr_loop ys s')"
  by (induction xs arbitrary: s) (auto split: sum.splits)

lemma gen_init_fields:
  "abbreviationMap gen_init = []" "definitions gen_init = []" "abbrCounter gen_init = 0"
  "usedAbbrs gen_init = {}"
  by (simp_all add: gen_init_def)

text \<open>
  The turn of one candidate inside a run of the loop over pairwise different prefixes:
  the state before it, the alias generated for it, and what the final table holds.
\<close>

lemma abbr_loop_turn:
  assumes d: "distinct (map fst (pre @ (p, c) # post))"
    and run: "abbr_loop (pre @ (p, c) # post) gen_init = Inr sf"
  shows "\<exists>s s' a.
    abbr_loop pre gen_init = Inr s \<and>
    generateAbbreviation p (abbrCounter s) (usedAbbrs s) = Inr (a, insert a (usedAbbrs s)) \<and>
    abbr_step s (p, c) = Inr s' \<and>
    abbr_loop post s' = Inr sf \<and>
    s' = (if net_beneficial p a c
          then \<lparr>abbreviationMap = abbreviationMap s @ [(p, a)],
                definitions = definitions s @ [definition_line p a],
                abbrCounter = abbrCounter s + 1,
                usedAbbrs = insert a (usedAbbrs s)\<rparr>
          else s\<lparr>usedAbbrs := insert a (usedAbbrs s)\<rparr>) \<and>
    ((p, a) \<in> set (abbreviationMap sf) \<longleftrightarrow> net_beneficial p a c) \<and>
    (p \<in> fst ` set (abbreviationMap sf) \<longleftrightarrow> net_beneficial p a c) \<and>
    a \<in> usedAbbrs sf"
proof -
  from run obtain s where s: "abbr_loop pre gen_init = Inr s"
    and r1: "abbr_loop ((p, c) # post) s = Inr sf"
    by (auto simp: abbr_loop_append split: sum.splits)
  from r1 obtain s' where st: "abbr_step s (p, c) = Inr s'" and r2: "abbr_loop post s' = Inr sf"
    by (auto split: sum.splits)
  from d have dpre: "distinct (map fst pre)" and dpost: "distinct (map fst post)"
    and p_pre: "p \<notin> fst ` set pre" and p_post: "p \<notin> fst ` set post"
    and pp: "fst ` set pre \<inter> fst ` set post = {}"
    by auto
  have "fst ` set (abbreviationMap s) \<subseteq> fst ` set pre"
    using abbr_loop_invariants [OF s dpre] by (simp add: gen_init_fields)
  with p_pre pp have pn: "p \<notin> fst ` set (abbreviationMap s)"
    and k0: "fst ` set (abbreviationMap s) \<inter> fst ` set post = {}" by blast+
  from abbr_step_cases [OF st] obtain a where
    g: "generateAbbreviation p (abbrCounter s) (usedAbbrs s) = Inr (a, insert a (usedAbbrs s))" and
    e: "s' = (if net_beneficial p a c
              then \<lparr>abbreviationMap = map_set (abbreviationMap s) p a,
                    definitions = definitions s @ [definition_line p a],
                    abbrCounter = abbrCounter s + 1,
                    usedAbbrs = insert a (usedAbbrs s)\<rparr>
              else s\<lparr>usedAbbrs := insert a (usedAbbrs s)\<rparr>)"
    by blast
  have y0: "s' = \<lparr>abbreviationMap = map_set (abbreviationMap s) p a,
             definitions = definitions s @ [definition_line p a],
             abbrCounter = abbrCounter s + 1,
             usedAbbrs = insert a (usedAbbrs s)\<rparr>" if "net_beneficial p a c"
    using e that by simp
  have n: "s' = s\<lparr>usedAbbrs := insert a (usedAbbrs s)\<rparr>" if "\<not> net_beneficial p a c"
    using e that by simp
  have y: "s' = \<lparr>abbreviationMap = abbreviationMap s @ [(p, a)],
             definitions = definitions s @ [definition_line p a],
             abbrCounter = abbrCounter s + 1,
             usedAbbrs = insert a (usedAbbrs s)\<rparr>" if "net_beneficial p a c"
    using y0 [OF that] map_set_new [OF pn] by simp
  note I1 = abbr_step_invariants [OF st pn]
  from I1(2) k0 p_post have k1: "fst ` set (abbreviationMap s') \<inter> fst ` set post = {}" by blast
  note I2 = abbr_loop_invariants [OF r2 dpost k1]
  have au: "a \<in> usedAbbrs s'" using y n by (cases "net_beneficial p a c") auto
  with I2 have a_sf: "a \<in> usedAbbrs sf" by auto
  have key: "p \<in> fst ` set (abbreviationMap sf) \<longleftrightarrow> net_beneficial p a c"
  proof (cases "net_beneficial p a c")
    case True
    from y [OF True] have "(p, a) \<in> set (abbreviationMap s')" by simp
    with I2 have "(p, a) \<in> set (abbreviationMap sf)" by auto
    with True show ?thesis by force
  next
    case False
    from n [OF False] pn have "p \<notin> fst ` set (abbreviationMap s')" by simp
    with I2 p_post have "p \<notin> fst ` set (abbreviationMap sf)" by auto
    with False show ?thesis by simp
  qed
  have ent: "(p, a) \<in> set (abbreviationMap sf) \<longleftrightarrow> net_beneficial p a c"
  proof (cases "net_beneficial p a c")
    case True
    from y [OF True] have "(p, a) \<in> set (abbreviationMap s')" by simp
    with I2 True show ?thesis by auto
  next
    case False
    with key have "p \<notin> fst ` set (abbreviationMap sf)" by simp
    with False show ?thesis by force
  qed
  have e': "s' = (if net_beneficial p a c
          then \<lparr>abbreviationMap = abbreviationMap s @ [(p, a)],
                definitions = definitions s @ [definition_line p a],
                abbrCounter = abbrCounter s + 1,
                usedAbbrs = insert a (usedAbbrs s)\<rparr>
          else s\<lparr>usedAbbrs := insert a (usedAbbrs s)\<rparr>)"
    using y n by (cases "net_beneficial p a c") simp_all
  from s g st r2 e' ent key a_sf show ?thesis by blast
qed

lemma generateAbbreviations_table:
  assumes "generateAbbreviations cfg paths = Inr (abbrMap, defs)"
  shows "defs = lines_of abbrMap" and "distinct (map fst abbrMap)" and "[] \<notin> fst ` set abbrMap"
    and "fst ` set abbrMap \<subseteq> fst ` set (frequentPrefixes cfg paths)"
proof -
  have "defs = lines_of abbrMap \<and> distinct (map fst abbrMap) \<and> [] \<notin> fst ` set abbrMap \<and>
        fst ` set abbrMap \<subseteq> fst ` set (frequentPrefixes cfg paths)"
  proof (cases "enableAbbreviations cfg")
    case False
    with assms show ?thesis by (auto simp: generateAbbreviations_def lines_of_def)
  next
    case True
    with assms obtain sf where run: "abbr_loop (frequentPrefixes cfg paths) gen_init = Inr sf"
      and m: "abbrMap = abbreviationMap sf" and df: "defs = definitions sf"
      by (auto simp: generateAbbreviations_def split: sum.splits)
    from abbr_loop_invariants [OF run distinct_frequentPrefixes] m df
    show ?thesis by (simp add: gen_init_fields lines_of_def)
  qed
  then show "defs = lines_of abbrMap" and "distinct (map fst abbrMap)" and "[] \<notin> fst ` set abbrMap"
    and "fst ` set abbrMap \<subseteq> fst ` set (frequentPrefixes cfg paths)" by blast+
qed

lemma abbr_loop_used_mono: "abbr_loop xs s = Inr s' \<Longrightarrow> usedAbbrs s \<subseteq> usedAbbrs s'"
proof (induction xs arbitrary: s)
  case Nil
  then show ?case by simp
next
  case (Cons pc rest)
  obtain p c where pc: "pc = (p, c)" by (cases pc)
  from Cons.prems pc obtain s1 where
    st: "abbr_step s (p, c) = Inr s1" and lp: "abbr_loop rest s1 = Inr s'"
    by (auto split: sum.splits)
  from abbr_step_cases [OF st] have "usedAbbrs s \<subseteq> usedAbbrs s1" by (auto split: if_splits)
  with Cons.IH [OF lp] show ?case by blast
qed

lemma generateAbbreviation_used_alias:
  "generateAbbreviation p n used = Inr (a, u) \<Longrightarrow> a \<in> used \<Longrightarrow> a = counter_loop (int n) []"
  by (auto simp: generateAbbreviation_def Let_def split: list.splits if_splits)

lemma frequentPrefixes_split:
  assumes "(p, c) \<in> set (prefixCounts paths)" and "abbreviationThreshold cfg \<le> int c"
  shows "\<exists>pre post. frequentPrefixes cfg paths = pre @ (p, c) # post"
proof -
  from assms have "(p, c) \<in> set (frequentPrefixes cfg paths)" by (simp add: set_frequentPrefixes)
  then show ?thesis by (rule split_list)
qed

lemma lines_of_eq: "lines_of m = map (\<lambda>(p, a). ''@'' @ a @ ''='' @ p) m"
  by (simp add: lines_of_def definition_line_def)

text \<open>When the loop returns, and what one turn appends.\<close>

lemma generateAbbreviation_returns_iff:
  "(\<exists>r. generateAbbreviation p n u = Inr r) \<longleftrightarrow> \<not> empty_first_segment p"
proof (cases p)
  case Nil
  then show ?thesis by (simp add: generateAbbreviation_def empty_first_segment_def)
next
  case (Cons c cs)
  show ?thesis
  proof (cases "c = CHR ''.''")
    case True
    with Cons show ?thesis by (simp add: generateAbbreviation_def empty_first_segment_def)
  next
    case False
    with Cons show ?thesis
      by (cases "split_on (CHR ''.'') cs")
         (simp_all add: generateAbbreviation_def empty_first_segment_def Let_def)
  qed
qed

lemma abbr_step_returns_iff:
  "(\<exists>s'. abbr_step s (p, c) = Inr s') \<longleftrightarrow> \<not> empty_first_segment p"
proof -
  have "(\<exists>s'. abbr_step s (p, c) = Inr s') \<longleftrightarrow>
        (\<exists>r. generateAbbreviation p (abbrCounter s) (usedAbbrs s) = Inr r)"
    by (cases "generateAbbreviation p (abbrCounter s) (usedAbbrs s)")
       (auto simp: abbr_step_def split: prod.splits)
  then show ?thesis by (simp only: generateAbbreviation_returns_iff)
qed

lemma abbr_loop_returns_iff:
  "(\<exists>s'. abbr_loop xs s = Inr s') \<longleftrightarrow> (\<forall>(p, c)\<in>set xs. \<not> empty_first_segment p)"
proof (induction xs arbitrary: s)
  case Nil
  show ?case by simp
next
  case (Cons pc rest)
  obtain p c where pc: "pc = (p, c)" by (cases pc)
  show ?case
  proof (cases "abbr_step s (p, c)")
    case (Inl e)
    then have "\<not> (\<exists>s'. abbr_step s (p, c) = Inr s')" by simp
    then have "empty_first_segment p" using abbr_step_returns_iff [of s p c] by blast
    with Inl pc show ?thesis by simp
  next
    case (Inr s1)
    then have "\<exists>s'. abbr_step s (p, c) = Inr s'" by simp
    then have "\<not> empty_first_segment p" using abbr_step_returns_iff [of s p c] by blast
    with Inr pc Cons.IH [of s1] show ?thesis by simp
  qed
qed

lemma generateAbbreviations_returns_iff:
  "(\<exists>r. generateAbbreviations cfg paths = Inr r) \<longleftrightarrow>
   (enableAbbreviations cfg \<longrightarrow> (\<forall>(p, c)\<in>set (frequentPrefixes cfg paths). \<not> empty_first_segment p))"
proof (cases "enableAbbreviations cfg")
  case False
  then show ?thesis by (simp add: generateAbbreviations_def)
next
  case True
  have "(\<exists>r. generateAbbreviations cfg paths = Inr r) \<longleftrightarrow>
        (\<exists>s'. abbr_loop (frequentPrefixes cfg paths) gen_init = Inr s')"
    using True
    by (cases "abbr_loop (frequentPrefixes cfg paths) gen_init") (simp_all add: generateAbbreviations_def)
  with True abbr_loop_returns_iff [of "frequentPrefixes cfg paths" gen_init] show ?thesis by simp
qed

lemma abbr_turn_appends:
  assumes sp: "frequentPrefixes cfg paths = pre @ (prefix, count) # post"
    and pre: "abbr_loop pre gen_init = Inr s"
    and g: "generateAbbreviation prefix (abbrCounter s) (usedAbbrs s) = Inr (abbr, used)"
  shows "\<exists>s'. abbr_step s (prefix, count) = Inr s' \<and>
           definitions s' = definitions s @
             (if net_beneficial prefix abbr count then [''@'' @ abbr @ ''='' @ prefix] else []) \<and>
           abbreviationMap s' = abbreviationMap s @
             (if net_beneficial prefix abbr count then [(prefix, abbr)] else [])"
proof -
  from distinct_frequentPrefixes [of cfg paths] sp
  have dpre: "distinct (map fst pre)" and pn: "prefix \<notin> fst ` set pre" by auto
  have "fst ` set (abbreviationMap s) \<subseteq> fst ` set pre"
    using abbr_loop_invariants [OF pre dpre] by (simp add: gen_init_fields)
  with pn have k: "prefix \<notin> fst ` set (abbreviationMap s)" by blast
  from g have u: "used = insert abbr (usedAbbrs s)" by (rule generateAbbreviation_used)
  show ?thesis
    using g u map_set_new [OF k, of abbr]
    by (simp add: abbr_step_def net_beneficial_def definitionCost_def savings_def definition_line_def)
qed

text \<open>
  Claim C2. A candidate is a prefix whose count reaches the threshold; the candidates
  are visited in sorted order. Whenever the loop of \<open>_generateAbbreviations\<close> reaches
  the turn of a candidate and an alias is generated for it, the turn appends the
  definition line \<open>@alias=prefix\<close> and the table entry exactly when
  \<open>(len(prefix) - len(alias) - 1) * count > len(prefix) + len(alias) + 3\<close>, and
  nothing otherwise. In a call that returns, every candidate has had such a turn, it
  is a key of the returned table exactly when the test held at its turn, and the
  returned definition lines are the lines of the table's entries. When every count is
  below the threshold, no definition line is returned. The call returns unless
  abbreviations are enabled and the first dot-segment of some candidate is empty:
  then \<open>prefix.split('.')[0][0]\<close> is \<open>undefined\<close>, \<open>toLowerCase\<close> throws a TypeError, and
  no definition line is emitted for any candidate. So it is for
  \<open>{".a": 1, ".b": 2, banana: {x: 1, y: 2, z: 3}}\<close> under the default configuration: the
  candidates are \<open>banana\<close> with count 3 and the empty prefix with count 2; \<open>banana\<close>
  gets the alias \<open>b\<close> and passes the test, the turn of the empty prefix throws, and
  the encoder returns nothing.
\<close>

theorem C2_net_savings:
  "(enableAbbreviations cfg \<and> frequentPrefixes cfg paths = pre @ (prefix, count) # post \<and>
    abbr_loop pre gen_init = Inr s \<and>
    generateAbbreviation prefix (abbrCounter s) (usedAbbrs s) = Inr (abbr, used) \<longrightarrow>
      (\<exists>s'. abbr_step s (prefix, count) = Inr s' \<and>
            definitions s' = definitions s @
              (if net_beneficial prefix abbr count then [''@'' @ abbr @ ''='' @ prefix] else []) \<and>
            abbreviationMap s' = abbreviationMap s @
              (if net_beneficial prefix abbr count then [(prefix, abbr)] else []))) \<and>
   ((prefix, count) \<in> set (prefixCounts paths) \<and> abbreviationThreshold cfg \<le> int count \<and>
    enableAbbreviations cfg \<and> generateAbbreviations cfg paths = Inr (abbrMap, defs) \<longrightarrow>
      (\<exists>pre post s abbr.
         frequentPrefixes cfg paths = pre @ (prefix, count) # post \<and>
         abbr_loop pre gen_init = Inr s \<and>
         generateAbbreviation prefix (abbrCounter s) (usedAbbrs s) = Inr (abbr, insert abbr (usedAbbrs s)) \<and>
         ((prefix, abbr) \<in> set abbrMap \<longleftrightarrow> net_beneficial prefix abbr count) \<and>
         (prefix \<in> fst ` set abbrMap \<longleftrightarrow> net_beneficial prefix abbr count) \<and>
         defs = map (\<lambda>(p, a). ''@'' @ a @ ''='' @ p) abbrMap)) \<and>
   ((\<forall>(p, c)\<in>set (prefixCounts paths). int c < abbreviationThreshold cfg) \<longrightarrow>
      generateAbbreviations cfg paths = Inr ([], [])) \<and>
   ((\<exists>r. generateAbbreviations cfg paths = Inr r) \<longleftrightarrow>
      (enableAbbreviations cfg \<longrightarrow>
         (\<forall>(p, c)\<in>set (frequentPrefixes cfg paths). \<not> empty_first_segment p))) \<and>
   frequentPrefixes default_config [''.a'', ''.b'', ''banana.x'', ''banana.y'', ''banana.z''] =
     [(''banana'', 3), ([], 2)] \<and>
   generateAbbreviation ''banana'' 0 {} = Inr (''b'', {''b''}) \<and>
   net_beneficial ''banana'' ''b'' 3 \<and>
   generateAbbreviation [] 1 {''b''} = Inl TypeError \<and>
   generateAbbreviations default_config [''.a'', ''.b'', ''banana.x'', ''banana.y'', ''banana.z''] =
     Inl TypeError \<and>
   flatten (JObject [(''.a'', JNum ''1''), (''.b'', JNum ''2''),
                     (''banana'', JObject [(''x'', JNum ''1''), (''y'', JNum ''2''), (''z'', JNum ''3'')])])
       [] [] =
     Inr [''.a:1'', ''.b:2'', ''banana.x:1'', ''banana.y:2'', ''banana.z:3''] \<and>
   flattenObject default_config
     (JObject [(''.a'', JNum ''1''), (''.b'', JNum ''2''),
               (''banana'', JObject [(''x'', JNum ''1''), (''y'', JNum ''2''), (''z'', JNum ''3'')])]) =
     Inl TypeError"
proof (intro conjI impI)
  assume "enableAbbreviations cfg \<and> frequentPrefixes cfg paths = pre @ (prefix, count) # post \<and>
    abbr_loop pre gen_init = Inr s \<and>
    generateAbbreviation prefix (abbrCounter s) (usedAbbrs s) = Inr (abbr, used)"
  then show "\<exists>s'. abbr_step s (prefix, count) = Inr s' \<and>
            definitions s' = definitions s @
              (if net_beneficial prefix abbr count then [''@'' @ abbr @ ''='' @ prefix] else []) \<and>
            abbreviationMap s' = abbreviationMap s @
              (if net_beneficial prefix abbr count then [(prefix, abbr)] else [])"
    using abbr_turn_appends [of cfg paths pre prefix count post s abbr used] by blast
next
  assume a: "(prefix, count) \<in> set (prefixCounts paths) \<and> abbreviationThreshold cfg \<le> int count \<and>
    enableAbbreviations cfg \<and> generateAbbreviations cfg paths = Inr (abbrMap, defs)"
  then obtain pre post where sp: "frequentPrefixes cfg paths = pre @ (prefix, count) # post"
    using frequentPrefixes_split by blast
  from a obtain sf where run: "abbr_loop (frequentPrefixes cfg paths) gen_init = Inr sf"
    and m: "abbrMap = abbreviationMap sf"
    by (auto simp: generateAbbreviations_def split: sum.splits)
  from distinct_frequentPrefixes [of cfg paths] sp
  have d: "distinct (map fst (pre @ (prefix, count) # post))" by simp
  from run sp have run': "abbr_loop (pre @ (prefix, count) # post) gen_init = Inr sf" by simp
  from a have df: "defs = map (\<lambda>(p, a). ''@'' @ a @ ''='' @ p) abbrMap"
    using generateAbbreviations_table(1) [of cfg paths abbrMap defs] by (simp add: lines_of_eq)
  from abbr_loop_turn [OF d run'] obtain s s' abbr where
    t1: "abbr_loop pre gen_init = Inr s" and
    t2: "generateAbbreviation prefix (abbrCounter s) (usedAbbrs s) = Inr (abbr, insert abbr (usedAbbrs s))" and
    t7: "(prefix, abbr) \<in> set (abbreviationMap sf) \<longleftrightarrow> net_beneficial prefix abbr count" and
    t8: "prefix \<in> fst ` set (abbreviationMap sf) \<longleftrightarrow> net_beneficial prefix abbr count"
    by blast
  from sp t1 t2 t7 t8 m df
  show "\<exists>pre post s abbr.
         frequentPrefixes cfg paths = pre @ (prefix, count) # post \<and>
         abbr_loop pre gen_init = Inr s \<and>
         generateAbbreviation prefix (abbrCounter s) (usedAbbrs s) = Inr (abbr, insert abbr (usedAbbrs s)) \<and>
         ((prefix, abbr) \<in> set abbrMap \<longleftrightarrow> net_beneficial prefix abbr count) \<and>
         (prefix \<in> fst ` set abbrMap \<longleftrightarrow> net_beneficial prefix abbr count) \<and>
         defs = map (\<lambda>(p, a). ''@'' @ a @ ''='' @ p) abbrMap"
    by blast
next
  assume low: "\<forall>(p, c)\<in>set (prefixCounts paths). int c < abbreviationThreshold cfg"
  then have "filter (\<lambda>(prefix, count). abbreviationThreshold cfg \<le> int count) (prefixCounts paths) = []"
    by (auto simp: filter_empty_conv)
  then have "frequentPrefixes cfg paths = []" by (simp add: frequentPrefixes_def sort_cmp_def)
  then show "generateAbbreviations cfg paths = Inr ([], [])"
    by (simp add: generateAbbreviations_def gen_init_fields)
next
  show "(\<exists>r. generateAbbreviations cfg paths = Inr r) \<longleftrightarrow>
      (enableAbbreviations cfg \<longrightarrow>
         (\<forall>(p, c)\<in>set (frequentPrefixes cfg paths). \<not> empty_first_segment p))"
    by (rule generateAbbreviations_returns_iff)
next
  show "frequentPrefixes default_config [''.a'', ''.b'', ''banana.x'', ''banana.y'', ''banana.z''] =
     [(''banana'', 3), ([], 2)]"
    by code_simp
next
  show "generateAbbreviation ''banana'' 0 {} = Inr (''b'', {''b''})" by code_simp
next
  show "net_beneficial ''banana'' ''b'' 3" by (simp add: net_beneficial_def)
next
  show "generateAbbreviation [] 1 {''b''} = Inl TypeError" by code_simp
next
  show "generateAbbreviations default_config [''.a'', ''.b'', ''banana.x'', ''banana.y'', ''banana.z''] =
     Inl TypeError"
    by code_simp
next
  show "flatten (JObject [(''.a'', JNum ''1''), (''.b'', JNum ''2''),
                     (''banana'', JObject [(''x'', JNum ''1''), (''y'', JNum ''2''), (''z'', JNum ''3'')])])
       [] [] =
     Inr [''.a:1'', ''.b:2'', ''banana.x:1'', ''banana.y:2'', ''banana.z:3'']"
    by code_simp
next
  show "flattenObject default_config
     (JObject [(''.a'', JNum ''1''), (''.b'', JNum ''2''),
               (''banana'', JObject [(''x'', JNum ''1''), (''y'', JNum ''2''), (''z'', JNum ''3'')])]) =
     Inl TypeError"
    by code_simp
qed

text \<open>
  Two prefixes with count 3: \<open>up\<close> is rejected, then the turn of \<open>banana\<close> appends
  \<open>@b=banana\<close>. With counts of 1 under the default threshold 2 nothing is defined.
  The paths \<open>.a\<close> and \<open>.b\<close> make the empty prefix a candidate, and the call throws,
  with the candidate \<open>banana\<close> beside it too.
\<close>

theorem C2_witness:
  "(\<exists>s'. abbr_step (gen_init\<lparr>usedAbbrs := {''u''}\<rparr>) (''banana'', 3) = Inr s' \<and>
         definitions s' = [''@b=banana''] \<and> abbreviationMap s' = [(''banana'', ''b'')]) \<and>
   (\<exists>pre post s abbr.
      frequentPrefixes default_config
        [''banana.x'', ''banana.y'', ''banana.z'', ''up.x'', ''up.y'', ''up.z''] =
        pre @ (''banana'', 3) # post \<and>
      abbr_loop pre gen_init = Inr s \<and>
      generateAbbreviation ''banana'' (abbrCounter s) (usedAbbrs s) = Inr (abbr, insert abbr (usedAbbrs s)) \<and>
      ((''banana'', abbr) \<in> set [(''banana'', ''b'')]) = net_beneficial ''banana'' abbr 3) \<and>
   generateAbbreviations default_config [''a.b'', ''c.d''] = Inr ([], []) \<and>
   \<not> (\<exists>r. generateAbbreviations default_config
            [''.a'', ''.b'', ''banana.x'', ''banana.y'', ''banana.z''] = Inr r)"
proof -
  let ?P = "[''banana.x'', ''banana.y'', ''banana.z'', ''up.x'', ''up.y'', ''up.z'']"
  let ?s = "gen_init\<lparr>usedAbbrs := {''u''}\<rparr>"
  have h1: "(''banana'', 3) \<in> set (prefixCounts ?P)" by code_simp
  have h2: "abbreviationThreshold default_config \<le> int 3" by (simp add: default_config_def)
  have h3: "enableAbbreviations default_config" by (simp add: default_config_def)
  have h4: "generateAbbreviations default_config ?P = Inr ([(''banana'', ''b'')], [''@b=banana''])"
    by code_simp
  have h5: "frequentPrefixes default_config ?P = [(''up'', 3)] @ (''banana'', 3) # []"
    by code_simp
  have h6: "abbr_loop [(''up'', 3)] gen_init = Inr ?s" by code_simp
  have h7: "generateAbbreviation ''banana'' (abbrCounter ?s) (usedAbbrs ?s) = Inr (''b'', {''b'', ''u''})"
    by code_simp
  have nb: "net_beneficial ''banana'' ''b'' 3" by (simp add: net_beneficial_def)
  have l: "\<forall>(p, c)\<in>set (prefixCounts [''a.b'', ''c.d'']). int c < abbreviationThreshold default_config"
    by code_simp
  let ?Q = "[''.a'', ''.b'', ''banana.x'', ''banana.y'', ''banana.z'']"
  have e: "\<not> (\<forall>(p, c)\<in>set (frequentPrefixes default_config ?Q). \<not> empty_first_segment p)"
    by code_simp
  have s0: "definitions ?s = []" "abbreviationMap ?s = []" by (simp_all add: gen_init_def)
  from C2_net_savings [of default_config ?P "[(''up'', 3)]" "''banana''" 3 "[]" ?s "''b''" "{''b'', ''u''}"]
    h3 h5 h6 h7 nb s0
  have T: "\<exists>s'. abbr_step ?s (''banana'', 3) = Inr s' \<and>
         definitions s' = [''@b=banana''] \<and> abbreviationMap s' = [(''banana'', ''b'')]"
    by simp
  from C2_net_savings [of default_config ?P _ "''banana''" 3 _ _ _ _ "[(''banana'', ''b'')]" "[''@b=banana'']"]
    h1 h2 h3 h4
  have A: "\<exists>pre post s abbr.
      frequentPrefixes default_config ?P = pre @ (''banana'', 3) # post \<and>
      abbr_loop pre gen_init = Inr s \<and>
      generateAbbreviation ''banana'' (abbrCounter s) (usedAbbrs s) = Inr (abbr, insert abbr (usedAbbrs s)) \<and>
      ((''banana'', abbr) \<in> set [(''banana'', ''b'')]) = net_beneficial ''banana'' abbr 3"
    by blast
  from C2_net_savings [of default_config "[''a.b'', ''c.d'']"] l
  have B: "generateAbbreviations default_config [''a.b'', ''c.d''] = Inr ([], [])" by blast
  from C2_net_savings [of default_config ?Q] h3 e
  have C: "\<not> (\<exists>r. generateAbbreviations default_config ?Q = Inr r)" by blast
  from T A B C show ?thesis by blast
qed

text \<open>
  Claim C3. Strategy 3 of \<open>_generateAbbreviation\<close> returns the counter-derived alias
  without looking into \<open>usedAbbrs\<close>, unlike strategies 1 and 2. For the two top-level
  keys \<open>banana\<close> and \<open>blueberry\<close>, each with three fields, the first takes the alias
  \<open>b\<close> by its first letter, the counter becomes 1, and the second falls through to
  the counter-derived alias of 1, which is \<open>b\<close> again: the table maps two prefixes to
  one alias.
\<close>

theorem C3_alias_collision:
  "generateAbbreviation ''blueberry'' 1 {''b''} = Inr (''b'', {''b''}) \<and>
   generateAbbreviations default_config
     [''banana.x'', ''banana.y'', ''banana.z'', ''blueberry.x'', ''blueberry.y'', ''blueberry.z''] =
     Inr ([(''banana'', ''b''), (''blueberry'', ''b'')], [''@b=banana'', ''@b=blueberry'']) \<and>
   flattenObject default_config
     (JObject [(''banana'', JObject [(''x'', JNum ''1''), (''y'', JNum ''2''), (''z'', JNum ''3'')]),
               (''blueberry'', JObject [(''x'', JNum ''4''), (''y'', JNum ''5''), (''z'', JNum ''6'')])]) =
     Inr (''@b=banana'' @ [newline] @ ''@b=blueberry'' @ [newline] @
          ''@b.x:1'' @ [newline] @ ''@b.y:2'' @ [newline] @ ''@b.z:3'' @ [newline] @
          ''@b.x:4'' @ [newline] @ ''@b.y:5'' @ [newline] @ ''@b.z:6'')"
  by code_simp

text \<open>The aliases of that table are not pairwise distinct.\<close>

theorem C3_witness:
  "\<exists>abbrMap defs.
     generateAbbreviations default_config
       [''banana.x'', ''banana.y'', ''banana.z'', ''blueberry.x'', ''blueberry.y'', ''blueberry.z''] =
       Inr (abbrMap, defs) \<and>
     \<not> distinct (map snd abbrMap)"
proof -
  from C3_alias_collision
  have "generateAbbreviations default_config
     [''banana.x'', ''banana.y'', ''banana.z'', ''blueberry.x'', ''blueberry.y'', ''blueberry.z''] =
     Inr ([(''banana'', ''b''), (''blueberry'', ''b'')], [''@b=banana'', ''@b=blueberry''])"
    by blast
  moreover have "\<not> distinct (map snd [(''banana'', ''b''), (''blueberry'', ''b'')])" by simp
  ultimately show ?thesis by blast
qed

text \<open>
  Claim C4, as amended. Take a candidate whose count reaches the threshold, in a run
  that returns, and let the net-savings test reject it. Its turn changes nothing but
  the set \<open>usedAbbrs\<close>: the table, the definition lines and the counter stay as they
  were, and the alias generated for it is added to the set. The prefix is no key of the
  returned table, whose entries give the returned definition lines. The alias stays in
  the set in every later state of the loop, where strategies 1 and 2 never return it.
\<close>

theorem C4_rejected_candidate:
  assumes "(prefix, count) \<in> set (prefixCounts paths)"
    and "abbreviationThreshold cfg \<le> int count"
    and "enableAbbreviations cfg"
    and "generateAbbreviations cfg paths = Inr (abbrMap, defs)"
  shows "\<exists>pre post s abbr.
           frequentPrefixes cfg paths = pre @ (prefix, count) # post \<and>
           abbr_loop pre gen_init = Inr s \<and>
           generateAbbreviation prefix (abbrCounter s) (usedAbbrs s) =
             Inr (abbr, insert abbr (usedAbbrs s)) \<and>
           (\<not> net_beneficial prefix abbr count \<longrightarrow>
              abbr_step s (prefix, count) = Inr (s\<lparr>usedAbbrs := insert abbr (usedAbbrs s)\<rparr>) \<and>
              prefix \<notin> fst ` set abbrMap \<and>
              defs = map (\<lambda>(p, a). ''@'' @ a @ ''='' @ p) abbrMap \<and>
              (\<forall>later s'. abbr_loop later (s\<lparr>usedAbbrs := insert abbr (usedAbbrs s)\<rparr>) = Inr s' \<longrightarrow>
                 abbr \<in> usedAbbrs s' \<and>
                 (\<forall>p n a u. generateAbbreviation p n (usedAbbrs s') = Inr (a, u) \<and> a = abbr \<longrightarrow>
                    a = counter_loop (int n) [])))"
proof -
  from assms(1,2) obtain pre post where sp: "frequentPrefixes cfg paths = pre @ (prefix, count) # post"
    using frequentPrefixes_split by blast
  from assms(3,4) obtain sf where run: "abbr_loop (frequentPrefixes cfg paths) gen_init = Inr sf"
    and m: "abbrMap = abbreviationMap sf"
    by (auto simp: generateAbbreviations_def split: sum.splits)
  from distinct_frequentPrefixes [of cfg paths] sp
  have d: "distinct (map fst (pre @ (prefix, count) # post))" by simp
  from run sp have run': "abbr_loop (pre @ (prefix, count) # post) gen_init = Inr sf" by simp
  from assms(4) have df: "defs = map (\<lambda>(p, a). ''@'' @ a @ ''='' @ p) abbrMap"
    using generateAbbreviations_table(1) [of cfg paths abbrMap defs] by (simp add: lines_of_eq)
  from abbr_loop_turn [OF d run'] obtain s s' abbr where
    t1: "abbr_loop pre gen_init = Inr s" and
    t2: "generateAbbreviation prefix (abbrCounter s) (usedAbbrs s) = Inr (abbr, insert abbr (usedAbbrs s))" and
    t3: "abbr_step s (prefix, count) = Inr s'" and
    t5: "s' = (if net_beneficial prefix abbr count
          then \<lparr>abbreviationMap = abbreviationMap s @ [(prefix, abbr)],
                definitions = definitions s @ [definition_line prefix abbr],
                abbrCounter = abbrCounter s + 1,
                usedAbbrs = insert abbr (usedAbbrs s)\<rparr>
          else s\<lparr>usedAbbrs := insert abbr (usedAbbrs s)\<rparr>)" and
    t8: "prefix \<in> fst ` set (abbreviationMap sf) \<longleftrightarrow> net_beneficial prefix abbr count"
    by blast
  have rej: "abbr_step s (prefix, count) = Inr (s\<lparr>usedAbbrs := insert abbr (usedAbbrs s)\<rparr>) \<and>
              prefix \<notin> fst ` set abbrMap \<and>
              defs = map (\<lambda>(p, a). ''@'' @ a @ ''='' @ p) abbrMap \<and>
              (\<forall>later s'. abbr_loop later (s\<lparr>usedAbbrs := insert abbr (usedAbbrs s)\<rparr>) = Inr s' \<longrightarrow>
                 abbr \<in> usedAbbrs s' \<and>
                 (\<forall>p n a u. generateAbbreviation p n (usedAbbrs s') = Inr (a, u) \<and> a = abbr \<longrightarrow>
                    a = counter_loop (int n) []))"
    if no: "\<not> net_beneficial prefix abbr count"
  proof (intro conjI allI impI)
    from t3 t5 no show "abbr_step s (prefix, count) = Inr (s\<lparr>usedAbbrs := insert abbr (usedAbbrs s)\<rparr>)"
      by simp
    from t8 no m show "prefix \<notin> fst ` set abbrMap" by simp
    from df show "defs = map (\<lambda>(p, a). ''@'' @ a @ ''='' @ p) abbrMap" .
  next
    fix later s'
    assume l: "abbr_loop later (s\<lparr>usedAbbrs := insert abbr (usedAbbrs s)\<rparr>) = Inr s'"
    from abbr_loop_used_mono [OF l] show "abbr \<in> usedAbbrs s'" by auto
  next
    fix later s' p n a u
    assume l: "abbr_loop later (s\<lparr>usedAbbrs := insert abbr (usedAbbrs s)\<rparr>) = Inr s'"
      and g: "generateAbbreviation p n (usedAbbrs s') = Inr (a, u) \<and> a = abbr"
    from abbr_loop_used_mono [OF l] have "abbr \<in> usedAbbrs s'" by auto
    with g show "a = counter_loop (int n) []"
      using generateAbbreviation_used_alias [of p n "usedAbbrs s'" a u] by simp
  qed
  from sp t1 t2 rej show ?thesis by blast
qed

text \<open>
  The alias of a rejected candidate is consumed: \<open>up\<close> (count 3) is rejected and recorded
  nowhere, but its alias \<open>u\<close> stays in \<open>usedAbbrs\<close>; \<open>username\<close>, which takes
  \<open>u\<close> from a fresh set, gets the counter-derived \<open>a\<close> instead.
\<close>

theorem C4_counterexample:
  "abbr_step gen_init (''up'', 3) = Inr (gen_init\<lparr>usedAbbrs := {''u''}\<rparr>) \<and>
   generateAbbreviation ''username'' 0 {} = Inr (''u'', {''u''}) \<and>
   generateAbbreviation ''username'' 0 {''u''} = Inr (''a'', {''a'', ''u''}) \<and>
   generateAbbreviations default_config
     [''up.x'', ''up.y'', ''up.z'', ''username.x'', ''username.y'', ''username.z''] =
     Inr ([(''username'', ''a'')], [''@a=username''])"
  by code_simp

text \<open>The rejected candidate \<open>up\<close> of that run.\<close>

theorem C4_witness:
  "\<exists>pre post s abbr.
     frequentPrefixes default_config
       [''up.x'', ''up.y'', ''up.z'', ''username.x'', ''username.y'', ''username.z''] =
       pre @ (''up'', 3) # post \<and>
     abbr_loop pre gen_init = Inr s \<and>
     generateAbbreviation ''up'' (abbrCounter s) (usedAbbrs s) = Inr (abbr, insert abbr (usedAbbrs s)) \<and>
     \<not> net_beneficial ''up'' abbr 3 \<and>
     abbr_step s (''up'', 3) = Inr (s\<lparr>usedAbbrs := insert abbr (usedAbbrs s)\<rparr>) \<and>
     ''up'' \<notin> fst ` set [(''username'', ''a'')]"
proof -
  let ?P = "[''up.x'', ''up.y'', ''up.z'', ''username.x'', ''username.y'', ''username.z'']"
  have h1: "(''up'', 3) \<in> set (prefixCounts ?P)" by code_simp
  have h2: "abbreviationThreshold default_config \<le> int 3" by (simp add: default_config_def)
  have h3: "enableAbbreviations default_config" by (simp add: default_config_def)
  have h4: "generateAbbreviations default_config ?P = Inr ([(''username'', ''a'')], [''@a=username''])"
    by code_simp
  have no: "\<not> net_beneficial ''up'' a 3" for a by (simp add: net_beneficial_def)
  from C4_rejected_candidate [OF h1 h2 h3 h4] no show ?thesis by blast
qed

section \<open>Rewriting paths\<close>
















end
